theory Spec2Isabelle
  imports Main "HOL-Library.Word"
begin

section \<open>Python strings and the part of the runtime the program relies on\<close>

text \<open>
  A Python \<open>str\<close> is a sequence of Unicode code points, so a character is modelled as
  its code point and a string as a list of code points. \<open>ustr\<close> turns an (ASCII)
  literal into such a string.
\<close>

type_synonym pychar = nat
type_synonym pystr = "pychar list"

definition ustr :: "string \<Rightarrow> pystr" where
  "ustr cs = map of_char cs"

text \<open>
  A decoded JSON value, as \<open>json.load\<close> returns it: \<open>None\<close>, a bool, an unbounded int,
  a float (its 64 bits), a str, a list, or a dict. A dict is kept as the list of its
  items in insertion order; its keys are distinct.
\<close>

datatype json =
    JNull
  | JBool bool
  | JInt int
  | JFloat "64 word"
  | JStr pystr
  | JList "json list"
  | JObj "(pystr \<times> json) list"

text \<open>
  \<open>clean_data.py\<close> calls into \<open>unicodedata\<close>, \<open>str\<close> and \<open>re\<close>. What these do on ASCII
  text is written out below. What they do beyond ASCII comes from the Unicode character
  database, and what \<open>str()\<close> prints for a float, a list or a dict comes from the
  interpreter; neither is part of the repository, so both are taken as a parameter:
  the tables of a \<open>py_runtime\<close>. Every theorem below holds for all tables.
\<close>

record py_runtime =
  rt_isspace :: "pychar \<Rightarrow> bool"
  rt_isdigit :: "pychar \<Rightarrow> bool"
  rt_decimal :: "pychar \<Rightarrow> bool"
  rt_combining :: "pychar \<Rightarrow> bool"
  rt_nfkd :: "pystr \<Rightarrow> pystr"
  rt_lower :: "pystr \<Rightarrow> pystr"
  rt_upper :: "pystr \<Rightarrow> pystr"
  rt_float_str :: "64 word \<Rightarrow> pystr"
  rt_container_str :: "json \<Rightarrow> pystr"

definition is_ascii :: "pystr \<Rightarrow> bool" where
  "is_ascii s = list_all (\<lambda>c. c < 128) s"

text \<open>\<open>str.isspace\<close> on one character: the ASCII whitespace is TAB..CR, FS..US and SPACE.\<close>

definition isspace :: "py_runtime \<Rightarrow> pychar \<Rightarrow> bool" where
  "isspace R c =
     (if c < 128 then (9 \<le> c \<and> c \<le> 13) \<or> (28 \<le> c \<and> c \<le> 32) else rt_isspace R c)"

text \<open>The regular expression class \<open>\d\<close> on a \<open>str\<close> pattern: a Unicode decimal digit.\<close>

definition decimal :: "py_runtime \<Rightarrow> pychar \<Rightarrow> bool" where
  "decimal R c = (if c < 128 then 48 \<le> c \<and> c \<le> 57 else rt_decimal R c)"

text \<open>\<open>str.isdigit\<close>: a non-empty string of digit characters.\<close>

definition isdigit :: "py_runtime \<Rightarrow> pystr \<Rightarrow> bool" where
  "isdigit R w =
     (w \<noteq> [] \<and> list_all (\<lambda>c. if c < 128 then 48 \<le> c \<and> c \<le> 57 else rt_isdigit R c) w)"

definition ascii_lower :: "pychar \<Rightarrow> pychar" where
  "ascii_lower c = (if 65 \<le> c \<and> c \<le> 90 then c + 32 else c)"

definition ascii_upper :: "pychar \<Rightarrow> pychar" where
  "ascii_upper c = (if 97 \<le> c \<and> c \<le> 122 then c - 32 else c)"

definition lower :: "py_runtime \<Rightarrow> pystr \<Rightarrow> pystr" where
  "lower R s = (if is_ascii s then map ascii_lower s else rt_lower R s)"

definition upper :: "py_runtime \<Rightarrow> pystr \<Rightarrow> pystr" where
  "upper R s = (if is_ascii s then map ascii_upper s else rt_upper R s)"

text \<open>\<open>unicodedata.normalize("NFKD", s)\<close> leaves ASCII text as it is.\<close>

definition nfkd :: "py_runtime \<Rightarrow> pystr \<Rightarrow> pystr" where
  "nfkd R s = (if is_ascii s then s else rt_nfkd R s)"

text \<open>\<open>unicodedata.combining(ch)\<close> is non-zero: no ASCII character is a combining mark.\<close>

definition combining :: "py_runtime \<Rightarrow> pychar \<Rightarrow> bool" where
  "combining R c = (if c < 128 then False else rt_combining R c)"

text \<open>
  The maximal runs of characters that satisfy \<open>P\<close>, from left to right. Both
  \<open>s.split()\<close> (runs of non-whitespace) and \<open>re.findall\<close> of a one-class pattern
  \<open>[...]+\<close> (leftmost, greedy, non-overlapping matches) are such runs.
\<close>

function runs :: "(pychar \<Rightarrow> bool) \<Rightarrow> pystr \<Rightarrow> pystr list" where
  "runs P [] = []"
| "runs P (c # cs) =
     (if P c then (c # takeWhile P cs) # runs P (dropWhile P cs) else runs P cs)"
  by pat_completeness auto
termination
  by (relation "measure (\<lambda>(P, s). length s)")
     (auto simp: length_dropWhile_le less_Suc_eq_le)

text \<open>
  \<open>re.sub\<close> of a one-class pattern \<open>[...]+\<close>: every maximal run of characters that
  satisfy \<open>P\<close> is replaced by \<open>repl\<close>.
\<close>

function re_sub_runs :: "(pychar \<Rightarrow> bool) \<Rightarrow> pystr \<Rightarrow> pystr \<Rightarrow> pystr" where
  "re_sub_runs P repl [] = []"
| "re_sub_runs P repl (c # cs) =
     (if P c then repl @ re_sub_runs P repl (dropWhile P cs)
      else c # re_sub_runs P repl cs)"
  by pat_completeness auto
termination
  by (relation "measure (\<lambda>(P, repl, s). length s)")
     (auto simp: length_dropWhile_le less_Suc_eq_le)

text \<open>\<open>sep.join(xs)\<close>.\<close>

fun join :: "pystr \<Rightarrow> pystr list \<Rightarrow> pystr" where
  "join sep [] = []"
| "join sep [x] = x"
| "join sep (x # y # ys) = x @ sep @ join sep (y # ys)"

text \<open>
  \<open>s.split(sep)\<close> for a one-character separator: the pieces between the separators,
  empty pieces included. The result is never the empty list (\<open>split_on_not_Nil\<close>
  below), so the last branch is never taken.
\<close>

fun split_on :: "pychar \<Rightarrow> pystr \<Rightarrow> pystr list" where
  "split_on sep [] = [[]]"
| "split_on sep (c # cs) =
     (if c = sep then [] # split_on sep cs
      else (case split_on sep cs of
              w # ws \<Rightarrow> (c # w) # ws
            | [] \<Rightarrow> [[c]]))"

text \<open>\<open>s.strip()\<close>: whitespace removed at both ends.\<close>

definition strip :: "py_runtime \<Rightarrow> pystr \<Rightarrow> pystr" where
  "strip R s = rev (dropWhile (isspace R) (rev (dropWhile (isspace R) s)))"

text \<open>\<open>sub in s\<close> for strings.\<close>

fun starts_with :: "pystr \<Rightarrow> pystr \<Rightarrow> bool" where
  "starts_with [] s = True"
| "starts_with (p # ps) [] = False"
| "starts_with (p # ps) (c # cs) = (p = c \<and> starts_with ps cs)"

fun contains :: "pystr \<Rightarrow> pystr \<Rightarrow> bool" where
  "contains sub [] = (sub = [])"
| "contains sub (c # cs) = (starts_with sub (c # cs) \<or> contains sub cs)"

section \<open>The text normalizers of clean_data.py\<close>

definition SP :: pystr where
  "SP = [32]"

definition strip_accents :: "py_runtime \<Rightarrow> pystr \<Rightarrow> pystr" where
  "strip_accents R s = filter (\<lambda>ch. \<not> combining R ch) (nfkd R s)"

definition clean_spaces :: "py_runtime \<Rightarrow> pystr \<Rightarrow> pystr" where
  "clean_spaces R s = strip R (join SP (runs (\<lambda>c. \<not> isspace R c) s))"

text \<open>The character class of \<open>NON_ALNUM_TO_SPACE_RE\<close>, \<open>[^a-z0-9]\<close>.\<close>

definition non_alnum :: "pychar \<Rightarrow> bool" where
  "non_alnum c = (\<not> ((97 \<le> c \<and> c \<le> 122) \<or> (48 \<le> c \<and> c \<le> 57)))"

definition small :: "pystr list" where
  "small = map ustr
     [''a'', ''an'', ''and'', ''as'', ''at'', ''but'', ''by'', ''for'', ''from'', ''in'',
      ''into'', ''near'', ''nor'', ''of'', ''on'', ''or'', ''over'', ''the'', ''to'', ''up'',
      ''via'', ''with'']"

text \<open>The body of the loop of \<open>title_case_smart\<close>, for the word \<open>w\<close> at index \<open>i\<close>.\<close>

definition title_word :: "py_runtime \<Rightarrow> nat \<Rightarrow> pystr \<Rightarrow> pystr" where
  "title_word R i w =
     (if isdigit R w then w
      else if length w \<le> 3 \<and> w = upper R w \<and> list_ex (\<lambda>c. 65 \<le> c \<and> c \<le> 90) w then w
      else (let lw = lower R w in
            if i \<noteq> 0 \<and> lw \<in> set small then lw
            else upper R (take 1 lw) @ drop 1 lw))"

definition title_case_smart :: "py_runtime \<Rightarrow> pystr \<Rightarrow> pystr" where
  "title_case_smart R s =
     (let words = filter (\<lambda>w. w \<noteq> []) (split_on 32 (clean_spaces R s))
      in join SP (map (\<lambda>(i, w). title_word R i w) (enumerate 0 words)))"

definition norm_community :: "py_runtime \<Rightarrow> pystr \<Rightarrow> pystr" where
  "norm_community R name =
     (let base = lower R (strip_accents R (clean_spaces R name))
      in clean_spaces R (re_sub_runs non_alnum SP base))"

text \<open>The abbreviation table \<open>m\<close> of \<open>expand_abbrev_tokens\<close>.\<close>

definition abbrev :: "(pystr \<times> pystr) list" where
  "abbrev = map (\<lambda>(k, v). (ustr k, ustr v))
     [(''n'', ''north''), (''s'', ''south''), (''e'', ''east''), (''w'', ''west''),
      (''ne'', ''northeast''), (''nw'', ''northwest''), (''se'', ''southeast''),
      (''sw'', ''southwest''),
      (''rd'', ''road''), (''st'', ''street''), (''ave'', ''avenue''), (''av'', ''avenue''),
      (''blvd'', ''boulevard''),
      (''dr'', ''drive''), (''ln'', ''lane''), (''pl'', ''place''), (''ct'', ''court''),
      (''cir'', ''circle''), (''trl'', ''trail''),
      (''pkwy'', ''parkway''), (''hwy'', ''highway''), (''mt'', ''mount''), (''ste'', ''suite''),
      (''apt'', ''apartment''),
      (''apts'', ''apartments''), (''unit'', ''unit''), (''bldg'', ''building'')]"

definition expand_abbrev_tokens :: "py_runtime \<Rightarrow> pystr list \<Rightarrow> pystr list" where
  "expand_abbrev_tokens R tokens =
     map (\<lambda>t. case map_of abbrev (lower R t) of Some v \<Rightarrow> v | None \<Rightarrow> lower R t) tokens"

definition norm_address :: "py_runtime \<Rightarrow> pystr \<Rightarrow> pystr" where
  "norm_address R addr =
     (let base = lower R (strip_accents R (clean_spaces R addr));
          cleaned = clean_spaces R (re_sub_runs non_alnum SP base);
          toks = filter (\<lambda>t. t \<noteq> []) (split_on 32 cleaned)
      in join SP (expand_abbrev_tokens R toks))"

text \<open>\<open>DIGIT_RE.findall(raw)\<close> with \<open>DIGIT_RE = \d+\<close>.\<close>

definition extract_gate_tokens :: "py_runtime \<Rightarrow> pystr \<Rightarrow> pystr list" where
  "extract_gate_tokens R raw = runs (decimal R) raw"

text \<open>The loop of \<open>uniq_preserve\<close>, with its two variables \<open>seen\<close> and \<open>out\<close>.\<close>

fun uniq_loop :: "pystr set \<Rightarrow> pystr list \<Rightarrow> pystr list \<Rightarrow> pystr list" where
  "uniq_loop seen out [] = out"
| "uniq_loop seen out (x # xs) =
     (if x \<in> seen then uniq_loop seen out xs
      else uniq_loop (insert x seen) (out @ [x]) xs)"

definition uniq_preserve :: "pystr list \<Rightarrow> pystr list" where
  "uniq_preserve items = uniq_loop {} [] items"

text \<open>
  \<open>collections.Counter(values)\<close>: a dict from value to count, in the order of first
  insertion; each value of the iterable adds one to its count.
\<close>

fun counter_add :: "(pystr \<times> nat) list \<Rightarrow> pystr \<Rightarrow> (pystr \<times> nat) list" where
  "counter_add [] v = [(v, 1)]"
| "counter_add ((k, n) # c) v =
     (if k = v then (k, n + 1) # c else (k, n) # counter_add c v)"

definition Counter :: "pystr list \<Rightarrow> (pystr \<times> nat) list" where
  "Counter values = foldl counter_add [] values"

text \<open>
  \<open>c.most_common(1)[0]\<close> is \<open>max(c.items(), key=count)\<close>: the first item, in the
  order of the dict, whose count no later item exceeds.
\<close>

fun max_first :: "(pystr \<times> nat) \<Rightarrow> (pystr \<times> nat) list \<Rightarrow> (pystr \<times> nat)" where
  "max_first best [] = best"
| "max_first best (x # xs) = max_first (if snd best < snd x then x else best) xs"

definition most_common :: "pystr list \<Rightarrow> pystr" where
  "most_common values =
     (case Counter (filter (\<lambda>v. v \<noteq> []) values) of
        [] \<Rightarrow> []
      | x # xs \<Rightarrow> fst (max_first x xs))"

text \<open>The character class \<open>[^a-z]\<close> of \<open>norm_type\<close>.\<close>

definition non_letter :: "pychar \<Rightarrow> bool" where
  "non_letter c = (\<not> (97 \<le> c \<and> c \<le> 122))"

text \<open>The local \<open>k\<close> of \<open>norm_type\<close>.\<close>

definition type_key :: "py_runtime \<Rightarrow> pystr \<Rightarrow> pystr" where
  "type_key R t =
     (let raw = lower R (clean_spaces R t)
      in clean_spaces R (re_sub_runs non_letter SP raw))"

definition norm_type :: "py_runtime \<Rightarrow> pystr \<Rightarrow> pystr" where
  "norm_type R t =
     (let k = type_key R t in
      if k = [] then ustr ''Unknown''
      else if k \<in> set (map ustr [''apt'', ''apts'', ''apartment'', ''apartments''])
              \<or> contains (ustr ''apartment'') k
        then ustr ''Apartments''
      else if k \<in> set (map ustr [''residential'', ''residence'', ''home'', ''homes'', ''housing''])
              \<or> contains (ustr ''residential'') k
        then ustr ''Residential''
      else if k \<in> set (map ustr [''business'', ''businesses'', ''commercial''])
              \<or> contains (ustr ''business'') k \<or> contains (ustr ''commercial'') k
        then ustr ''Businesses''
      else if contains (ustr ''student'') k then ustr ''Residential''
      else title_case_smart R k)"

section \<open>Decoded JSON values as Python sees them\<close>

datatype py_error = AttributeError

text \<open>Truth value of an object, as \<open>groups or {}\<close> tests it.\<close>

fun truthy :: "json \<Rightarrow> bool" where
  "truthy JNull = False"
| "truthy (JBool b) = b"
| "truthy (JInt i) = (i \<noteq> 0)"
| "truthy (JFloat w) = (w \<noteq> 0 \<and> w \<noteq> 2 ^ 63)"
| "truthy (JStr s) = (s \<noteq> [])"
| "truthy (JList xs) = (xs \<noteq> [])"
| "truthy (JObj kvs) = (kvs \<noteq> [])"

text \<open>The decimal digits of a natural number, most significant first.\<close>

fun dec_digits :: "nat \<Rightarrow> pystr" where
  "dec_digits n = (if n < 10 then [48 + n] else dec_digits (n div 10) @ [48 + n mod 10])"

declare dec_digits.simps [simp del]

text \<open>\<open>str(v)\<close>. A \<open>str\<close> is returned as it is.\<close>

fun py_str :: "py_runtime \<Rightarrow> json \<Rightarrow> pystr" where
  "py_str R (JStr s) = s"
| "py_str R JNull = ustr ''None''"
| "py_str R (JBool b) = (if b then ustr ''True'' else ustr ''False'')"
| "py_str R (JInt i) = (if i < 0 then 45 # dec_digits (nat (- i)) else dec_digits (nat i))"
| "py_str R (JFloat w) = rt_float_str R w"
| "py_str R (JList xs) = rt_container_str R (JList xs)"
| "py_str R (JObj kvs) = rt_container_str R (JObj kvs)"

text \<open>
  \<open>d.get(key, default)\<close> on a dict kept as its items in insertion order (the keys of a
  dict are distinct).
\<close>

definition dict_get :: "('k \<times> 'v) list \<Rightarrow> 'k \<Rightarrow> 'v \<Rightarrow> 'v" where
  "dict_get d key dflt = (case map_of d key of None \<Rightarrow> dflt | Some v \<Rightarrow> v)"

text \<open>\<open>d[key] = v\<close>: a key that is present keeps its place, a new key goes last.\<close>

fun dict_set :: "('k \<times> 'v) list \<Rightarrow> 'k \<Rightarrow> 'v \<Rightarrow> ('k \<times> 'v) list" where
  "dict_set [] key v = [(key, v)]"
| "dict_set ((k, w) # d) key v =
     (if k = key then (k, v) # d else (k, w) # dict_set d key v)"

section \<open>The merge engine\<close>

text \<open>\<open>[e for e in entries if isinstance(e, dict)]\<close>: each dict as its items.\<close>

fun dict_entries :: "json list \<Rightarrow> (pystr \<times> json) list list" where
  "dict_entries [] = []"
| "dict_entries (JObj kvs # es) = kvs # dict_entries es"
| "dict_entries (e # es) = dict_entries es"

text \<open>
  One turn of the first loop of \<open>clean_groups\<close>. \<open>buckets\<close> is a
  \<open>defaultdict(list)\<close>: it gets the key \<open>comm_norm\<close> as soon as a list is extended
  under it, also by nothing. The keys of a decoded JSON object are strings, so
  \<open>str(community)\<close> is \<open>community\<close>.
\<close>

definition bucket_step ::
  "py_runtime \<Rightarrow> (pystr \<times> (pystr \<times> json) list list) list \<Rightarrow> pystr \<times> json
     \<Rightarrow> (pystr \<times> (pystr \<times> json) list list) list" where
  "bucket_step R buckets item =
     (let comm_norm = norm_community R (fst item) in
      case snd item of
        JList entries \<Rightarrow>
          dict_set buckets comm_norm (dict_get buckets comm_norm [] @ dict_entries entries)
      | _ \<Rightarrow> buckets)"

record addr_agg =
  addresses :: "pystr list"
  types :: "pystr list"
  gates :: "pystr list"

text \<open>One turn of the loop over the entries of a bucket.\<close>

definition by_addr_step ::
  "py_runtime \<Rightarrow> (pystr \<times> addr_agg) list \<Rightarrow> (pystr \<times> json) list \<Rightarrow> (pystr \<times> addr_agg) list" where
  "by_addr_step R by_addr e =
     (let address = clean_spaces R (py_str R (dict_get e (ustr ''address'') (JStr [])));
          gate = clean_spaces R (py_str R (dict_get e (ustr ''gate'') (JStr [])));
          typ = norm_type R (py_str R (dict_get e (ustr ''type'') (JStr [])));
          addr_norm = norm_address R address;
          agg = dict_get by_addr addr_norm \<lparr>addresses = [], types = [], gates = []\<rparr>
      in dict_set by_addr addr_norm
           \<lparr>addresses = addresses agg @ [address],
            types = types agg @ [typ],
            gates = gates agg @ [gate]\<rparr>)"

record cleaned_entry =
  out_address :: pystr
  out_gate :: pystr
  out_type :: pystr

text \<open>The body of the loop over the address groups.\<close>

definition merge_group :: "py_runtime \<Rightarrow> pystr \<Rightarrow> addr_agg \<Rightarrow> cleaned_entry" where
  "merge_group R addr_norm agg =
     (let best_addr = (let a = most_common (addresses agg)
                       in if a \<noteq> [] then a else title_case_smart R addr_norm);
          best_type = (let t = most_common (types agg)
                       in if t \<noteq> [] then t else ustr ''Unknown'');
          gate_tokens = uniq_preserve (concat (map (extract_gate_tokens R) (gates agg)))
      in \<lparr>out_address = best_addr, out_gate = join SP gate_tokens, out_type = best_type\<rparr>)"

text \<open>The \<open>cleaned_entries\<close> of one bucket.\<close>

definition clean_bucket :: "py_runtime \<Rightarrow> (pystr \<times> json) list list \<Rightarrow> cleaned_entry list" where
  "clean_bucket R entries =
     map (\<lambda>(addr_norm, agg). merge_group R addr_norm agg) (foldl (by_addr_step R) [] entries)"

text \<open>
  \<open>clean_groups\<close>. \<open>(groups or {}).items()\<close> takes the items of a dict, nothing when
  \<open>groups\<close> is false, and fails on any other object, which has no \<open>items\<close>.
\<close>

definition clean_groups ::
  "py_runtime \<Rightarrow> json \<Rightarrow> py_error + (pystr \<times> cleaned_entry list) list" where
  "clean_groups R groups =
     (case (if truthy groups
            then (case groups of JObj kvs \<Rightarrow> Inr kvs | _ \<Rightarrow> Inl AttributeError)
            else Inr []) of
        Inl err \<Rightarrow> Inl err
      | Inr items \<Rightarrow>
          Inr (foldl (\<lambda>out_groups (comm_norm, entries).
                        dict_set out_groups (title_case_smart R comm_norm) (clean_bucket R entries))
                 [] (foldl (bucket_step R) [] items)))"

record out_payload =
  out_meta :: json
  out_groups :: "(pystr \<times> cleaned_entry list) list"

text \<open>
  \<open>main\<close> between \<open>json.load\<close> and \<open>json.dump\<close>: from the decoded payload to the
  payload that is written. \<open>payload.get\<close> fails on a payload that is not a dict.
\<close>

definition main_payload :: "py_runtime \<Rightarrow> json \<Rightarrow> py_error + out_payload" where
  "main_payload R payload =
     (case payload of
        JObj kvs \<Rightarrow>
          (case clean_groups R (dict_get kvs (ustr ''groups'') (JObj [])) of
             Inl err \<Rightarrow> Inl err
           | Inr cleaned \<Rightarrow>
               Inr \<lparr>out_meta = dict_get kvs (ustr ''meta'') (JObj []), out_groups = cleaned\<rparr>)
      | _ \<Rightarrow> Inl AttributeError)"

text \<open>
  Tables that know nothing beyond ASCII. No function above consults the tables on
  ASCII text, so a value computed with them on ASCII input is the value for all tables.
\<close>

definition ascii_tables :: py_runtime where
  "ascii_tables =
     \<lparr>rt_isspace = (\<lambda>c. False), rt_isdigit = (\<lambda>c. False), rt_decimal = (\<lambda>c. False),
      rt_combining = (\<lambda>c. False), rt_nfkd = (\<lambda>s. s), rt_lower = (\<lambda>s. s),
      rt_upper = (\<lambda>s. s), rt_float_str = (\<lambda>w. []), rt_container_str = (\<lambda>v. [])\<rparr>"

section \<open>Vocabulary of the proofs\<close>

text \<open>A character of a normalized key other than the space: \<open>[a-z0-9]\<close>.\<close>

definition key_char :: "pychar \<Rightarrow> bool" where
  "key_char c = ((97 \<le> c \<and> c \<le> 122) \<or> (48 \<le> c \<and> c \<le> 57))"

text \<open>A list of non-empty words whose characters all satisfy \<open>P\<close>.\<close>

definition words_of :: "(pychar \<Rightarrow> bool) \<Rightarrow> pystr list \<Rightarrow> bool" where
  "words_of P ws = (\<forall>w\<in>set ws. w \<noteq> [] \<and> (\<forall>c\<in>set w. P c))"

text \<open>
  \<open>title_case_smart\<close> with the acronym branch (the second \<open>if\<close> of its loop) removed:
  what the specification suggests the title-caser amounts to on normalized input.
\<close>

definition title_word_plain :: "py_runtime \<Rightarrow> nat \<Rightarrow> pystr \<Rightarrow> pystr" where
  "title_word_plain R i w =
     (if isdigit R w then w
      else (let lw = lower R w in
            if i \<noteq> 0 \<and> lw \<in> set small then lw
            else upper R (take 1 lw) @ drop 1 lw))"

definition title_case_plain :: "py_runtime \<Rightarrow> pystr \<Rightarrow> pystr" where
  "title_case_plain R s =
     (let words = filter (\<lambda>w. w \<noteq> []) (split_on 32 (clean_spaces R s))
      in join SP (map (\<lambda>(i, w). title_word_plain R i w) (enumerate 0 words)))"

text \<open>The acronym branch is taken for some word of \<open>s\<close>.\<close>

definition acronym_fires :: "py_runtime \<Rightarrow> pystr \<Rightarrow> bool" where
  "acronym_fires R s =
     list_ex (\<lambda>w. \<not> isdigit R w \<and> length w \<le> 3 \<and> w = upper R w
                  \<and> list_ex (\<lambda>c. 65 \<le> c \<and> c \<le> 90) w)
       (filter (\<lambda>w. w \<noteq> []) (split_on 32 (clean_spaces R s)))"

text \<open>\<open>isinstance(v, list)\<close>.\<close>

definition is_list :: "json \<Rightarrow> bool" where
  "is_list v = (case v of JList es \<Rightarrow> True | _ \<Rightarrow> False)"

text \<open>
  What the specification says a community bucket holds: the dict-shaped entries of every
  raw community whose name normalizes to \<open>key\<close> and whose value is a list, in the order
  in which the raw document lists them.
\<close>

definition merged_entries :: "py_runtime \<Rightarrow> (pystr \<times> json) list \<Rightarrow> pystr \<Rightarrow> (pystr \<times> json) list list" where
  "merged_entries R items key =
     concat (map (\<lambda>item. case snd item of
                            JList es \<Rightarrow> if norm_community R (fst item) = key then dict_entries es else []
                          | _ \<Rightarrow> []) items)"

text \<open>The two entries and the document of the end-to-end scenario.\<close>

definition oak_e1 :: "(pystr \<times> json) list" where
  "oak_e1 = [(ustr ''address'', JStr (ustr ''100 N Main St'')),
             (ustr ''gate'', JStr (ustr ''1234'')),
             (ustr ''type'', JStr (ustr ''apt''))]"

definition oak_e2 :: "(pystr \<times> json) list" where
  "oak_e2 = [(ustr ''address'', JStr (ustr ''100 North Main Street'')),
             (ustr ''gate'', JStr (ustr ''1234,5678'')),
             (ustr ''type'', JStr (ustr ''Apartment''))]"

definition oak_hills_doc :: json where
  "oak_hills_doc =
     JObj [(ustr ''groups'', JObj [(ustr ''Oak Hills'', JList [JObj oak_e1, JObj oak_e2])])]"

text \<open>Two spellings of one community, and a document with a community without entries.\<close>

definition two_spellings :: "(pystr \<times> json) list" where
  "two_spellings = [(ustr ''Oak Hills'', JList [JObj oak_e1]),
                    (ustr ''oak   hills'', JList [JNull, JObj oak_e2])]"

definition with_empty :: "(pystr \<times> json) list" where
  "with_empty = [(ustr ''Oak Hills'', JList [JObj oak_e1, JObj oak_e2]),
                 (ustr ''Elm Court'', JList [JInt 7])]"

text \<open>
  The locals \<open>address\<close>, \<open>gate\<close> and \<open>typ\<close> of the loop over the entries of a bucket,
  as functions of the entry.
\<close>

definition entry_address :: "py_runtime \<Rightarrow> (pystr \<times> json) list \<Rightarrow> pystr" where
  "entry_address R e = clean_spaces R (py_str R (dict_get e (ustr ''address'') (JStr [])))"

definition entry_gate :: "py_runtime \<Rightarrow> (pystr \<times> json) list \<Rightarrow> pystr" where
  "entry_gate R e = clean_spaces R (py_str R (dict_get e (ustr ''gate'') (JStr [])))"

definition entry_type :: "py_runtime \<Rightarrow> (pystr \<times> json) list \<Rightarrow> pystr" where
  "entry_type R e = norm_type R (py_str R (dict_get e (ustr ''type'') (JStr [])))"

text \<open>
  The contributors of the address group \<open>k\<close>: the entries of the bucket whose address
  normalizes to \<open>k\<close>, in the order of the bucket.
\<close>

definition contributors ::
  "py_runtime \<Rightarrow> (pystr \<times> json) list list \<Rightarrow> pystr \<Rightarrow> (pystr \<times> json) list list" where
  "contributors R entries k = filter (\<lambda>e. norm_address R (entry_address R e) = k) entries"

text \<open>The values that vote in \<open>most_common\<close>: \<open>[v for v in values if v]\<close>.\<close>

definition votes :: "pystr list \<Rightarrow> pystr list" where
  "votes values = filter (\<lambda>v. v \<noteq> []) values"

text \<open>
  \<open>r\<close> wins the vote \<open>vs\<close>: it occurs in \<open>vs\<close>, no value occurs more often, and every
  value that occurs before the first occurrence of \<open>r\<close> occurs strictly less often.
\<close>

definition majority_winner :: "pystr list \<Rightarrow> pystr \<Rightarrow> bool" where
  "majority_winner vs r =
     (r \<in> set vs
      \<and> (\<forall>v\<in>set vs. count_list vs v \<le> count_list vs r)
      \<and> (\<forall>v\<in>set (takeWhile (\<lambda>v. v \<noteq> r) vs). count_list vs v < count_list vs r))"

text \<open>The three raw addresses of the majority-vote example.\<close>

definition main_st_votes :: "pystr list" where
  "main_st_votes = [ustr ''123 Main St'', ustr ''123 Main St'', ustr ''123 Main Street'']"

text \<open>The raw gate text of the gate-token example.\<close>

definition gate_text :: pystr where
  "gate_text = ustr ''Gate: 0456, code 0456 / 0789''"

text \<open>An entry whose gate is the integer 1234 and whose type is missing.\<close>

definition int_gate_entry :: "(pystr \<times> json) list" where
  "int_gate_entry = [(ustr ''address'', JStr (ustr ''9 Elm St'')), (ustr ''gate'', JInt 1234)]"

text \<open>An entry without address, with a string gate and with null as type.\<close>

definition null_type_entry :: "(pystr \<times> json) list" where
  "null_type_entry = [(ustr ''gate'', JStr (ustr ''12  34'')), (ustr ''type'', JNull)]"

text \<open>
  Three entries whose raw addresses differ, two of them only in whitespace, and an entry
  without address and type.
\<close>

definition street_e1 :: "(pystr \<times> json) list" where
  "street_e1 = [(ustr ''address'', JStr (ustr ''1 A Street''))]"

definition street_e2 :: "(pystr \<times> json) list" where
  "street_e2 = [(ustr ''address'', JStr (ustr ''1 A St''))]"

definition street_e3 :: "(pystr \<times> json) list" where
  "street_e3 = [(ustr ''address'', JStr (ustr ''1  A St''))]"

definition bare_entry :: "(pystr \<times> json) list" where
  "bare_entry = [(ustr ''gate'', JStr (ustr ''77''))]"

section \<open>Runs, joins and whitespace\<close>

lemma ustr_Nil: "ustr [] = []"
  by (simp add: ustr_def)

lemma words_of_Nil [simp]: "words_of P []"
  by (simp add: words_of_def)

lemma words_of_Cons [simp]:
  "words_of P (w # ws) = (w \<noteq> [] \<and> (\<forall>c\<in>set w. P c) \<and> words_of P ws)"
  by (auto simp: words_of_def)

lemma words_of_mono: "words_of P ws \<Longrightarrow> (\<And>c. P c \<Longrightarrow> Q c) \<Longrightarrow> words_of Q ws"
  by (auto simp: words_of_def)

lemma runs_words: "words_of (\<lambda>c. P c \<and> c \<in> set s) (runs P s)"
proof (induction P s rule: runs.induct)
  case (1 P)
  then show ?case by simp
next
  case (2 P c cs)
  show ?case
  proof (cases "P c")
    case True
    have a: "\<forall>x\<in>set (takeWhile P cs). P x \<and> x \<in> set cs"
      by (auto dest: set_takeWhileD)
    have b: "set (dropWhile P cs) \<subseteq> set cs"
      by (auto dest: set_dropWhileD)
    from 2 True a b show ?thesis by (auto simp: words_of_def)
  next
    case False
    with 2 show ?thesis by (auto simp: words_of_def)
  qed
qed

lemma runs_word_append:
  assumes "w \<noteq> []" "\<forall>c\<in>set w. P c" "rest = [] \<or> \<not> P (hd rest)"
  shows "runs P (w @ rest) = w # runs P rest"
proof -
  obtain c w' where w: "w = c # w'" using assms(1) by (cases w) auto
  have tw: "takeWhile P rest = []" using assms(3) by (cases rest) auto
  have dw: "dropWhile P rest = rest" using assms(3) by (cases rest) auto
  have "takeWhile P (w' @ rest) = w'" using assms(2) w tw by (simp add: takeWhile_append2)
  moreover have "dropWhile P (w' @ rest) = rest" using assms(2) w dw by (simp add: dropWhile_append2)
  ultimately show ?thesis using assms(2) w by simp
qed

lemma runs_join:
  assumes "\<not> P 32" "words_of P ws"
  shows "runs P (join SP ws) = ws"
  using assms(2)
proof (induction ws rule: induct_list012)
  case 1
  then show ?case by simp
next
  case (2 x)
  then show ?case using runs_word_append[of x P "[]"] by simp
next
  case (3 x y ys)
  have "runs P (x @ (32 # join SP (y # ys))) = x # runs P (32 # join SP (y # ys))"
    using 3(3) assms(1) by (intro runs_word_append) auto
  then show ?case using 3 assms(1) by (simp add: SP_def)
qed

lemma join_hd_last:
  assumes "words_of P ws" "ws \<noteq> []"
  shows "join SP ws \<noteq> [] \<and> P (hd (join SP ws)) \<and> P (last (join SP ws))"
  using assms
proof (induction ws rule: induct_list012)
  case 1
  then show ?case by simp
next
  case (2 x)
  then show ?case by (cases x) auto
next
  case (3 x y ys)
  then show ?case by (cases x) (auto simp: SP_def)
qed

lemma strip_id:
  assumes "s = [] \<or> (\<not> isspace R (hd s) \<and> \<not> isspace R (last s))"
  shows "strip R s = s"
proof (cases "s = []")
  case True
  then show ?thesis by (simp add: strip_def)
next
  case False
  with assms have h: "\<not> isspace R (hd s)" and l: "\<not> isspace R (last s)" by auto
  have 1: "dropWhile (isspace R) s = s" using h False by (cases s) auto
  have 2: "dropWhile (isspace R) (rev s) = rev s"
    using l False by (cases "rev s") (auto simp: last_rev hd_rev dest: arg_cong[where f=rev])
  show ?thesis by (simp add: strip_def 1 2)
qed

lemma isspace_32 [simp]: "isspace R 32"
  by (simp add: isspace_def)

lemma key_char_not_space: "key_char c \<Longrightarrow> \<not> isspace R c"
  by (auto simp: key_char_def isspace_def)

lemma clean_spaces_join:
  assumes "words_of (\<lambda>c. \<not> isspace R c) ws"
  shows "clean_spaces R (join SP ws) = join SP ws"
proof -
  have r: "runs (\<lambda>c. \<not> isspace R c) (join SP ws) = ws"
    using assms by (intro runs_join) auto
  have "strip R (join SP ws) = join SP ws"
  proof (cases "ws = []")
    case True
    then show ?thesis by (simp add: strip_def)
  next
    case False
    then show ?thesis using join_hd_last[OF assms False] by (intro strip_id) auto
  qed
  then show ?thesis by (simp add: clean_spaces_def r)
qed

lemma clean_spaces_words:
  "\<exists>ws. words_of (\<lambda>c. \<not> isspace R c \<and> c \<in> set s) ws \<and> clean_spaces R s = join SP ws"
proof -
  let ?ws = "runs (\<lambda>c. \<not> isspace R c) s"
  have w: "words_of (\<lambda>c. \<not> isspace R c \<and> c \<in> set s) ?ws" by (rule runs_words)
  then have w': "words_of (\<lambda>c. \<not> isspace R c) ?ws" by (rule words_of_mono) simp
  have "strip R (join SP ?ws) = join SP ?ws"
  proof (cases "?ws = []")
    case True
    then show ?thesis by (simp add: strip_def)
  next
    case False
    then show ?thesis using join_hd_last[OF w' False] by (intro strip_id) auto
  qed
  then show ?thesis using w by (auto simp: clean_spaces_def)
qed

lemma set_re_sub_runs: "set (re_sub_runs P repl s) \<subseteq> {c \<in> set s. \<not> P c} \<union> set repl"
proof (induction P repl s rule: re_sub_runs.induct)
  case (1 P repl)
  then show ?case by simp
next
  case (2 P repl c cs)
  have b: "set (dropWhile P cs) \<subseteq> set cs"
    by (auto dest: set_dropWhileD)
  show ?case using 2 b by (cases "P c") auto
qed

lemma re_sub_runs_id: "\<forall>c\<in>set s. \<not> P c \<Longrightarrow> re_sub_runs P repl s = s"
  by (induction s) auto

lemma set_join: "set (join SP ws) \<subseteq> (\<Union>w\<in>set ws. set w) \<union> {32}"
  by (induction ws rule: induct_list012) (auto simp: SP_def)

lemma key_join_chars:
  assumes "words_of key_char ws" "c \<in> set (join SP ws)"
  shows "key_char c \<or> c = 32"
  using assms set_join[of ws] by (auto simp: words_of_def)

lemma key_char_simps:
  "key_char c \<Longrightarrow> c < 128"
  "key_char c \<Longrightarrow> ascii_lower c = c"
  "key_char c \<Longrightarrow> \<not> non_alnum c"
  "key_char c \<Longrightarrow> \<not> (65 \<le> c \<and> c \<le> 90)"
  by (auto simp: key_char_def ascii_lower_def non_alnum_def)

lemma key_join_ascii:
  assumes "words_of key_char ws"
  shows "is_ascii (join SP ws)"
proof -
  have "c < 128" if "c \<in> set (join SP ws)" for c
    using key_join_chars[OF assms that] by (auto simp: key_char_def)
  then show ?thesis by (simp add: is_ascii_def list_all_iff)
qed

lemma key_join_lower:
  assumes "words_of key_char ws"
  shows "lower R (join SP ws) = join SP ws"
proof -
  have "ascii_lower c = c" if "c \<in> set (join SP ws)" for c
    using key_join_chars[OF assms that] by (auto simp: key_char_def ascii_lower_def)
  then have "map ascii_lower (join SP ws) = join SP ws"
    by (intro map_idI) auto
  then show ?thesis by (simp add: lower_def key_join_ascii[OF assms])
qed

lemma strip_accents_ascii: "is_ascii s \<Longrightarrow> strip_accents R s = s"
  by (simp add: strip_accents_def nfkd_def combining_def is_ascii_def list_all_iff)

lemma re_sub_runs_word:
  "\<forall>c\<in>set w. \<not> P c \<Longrightarrow> re_sub_runs P repl (w @ rest) = w @ re_sub_runs P repl rest"
  by (induction w) auto

lemma re_sub_join:
  assumes "words_of Q ws" "\<And>c. Q c \<Longrightarrow> \<not> P c" "P 32"
  shows "re_sub_runs P SP (join SP ws) = join SP ws"
  using assms(1)
proof (induction ws rule: induct_list012)
  case 1
  then show ?case by simp
next
  case (2 x)
  then show ?case using assms(2) by (simp add: re_sub_runs_id)
next
  case (3 x y ys)
  have w: "words_of Q (y # ys)" using 3(3) by simp
  have hd: "\<not> P (hd (join SP (y # ys)))" and ne: "join SP (y # ys) \<noteq> []"
    using join_hd_last[OF w] assms(2) by auto
  have dw: "dropWhile P (join SP (y # ys)) = join SP (y # ys)"
    using hd ne by (cases "join SP (y # ys)") auto
  have "re_sub_runs P SP (x @ 32 # join SP (y # ys)) = x @ re_sub_runs P SP (32 # join SP (y # ys))"
    using 3(3) assms(2) by (intro re_sub_runs_word) auto
  also have "re_sub_runs P SP (32 # join SP (y # ys)) = SP @ join SP (y # ys)"
    using assms(3) dw 3(2)[OF w] by simp
  finally show ?case by (simp add: SP_def)
qed

lemma norm_key_words:
  assumes "\<And>c. \<not> P c \<Longrightarrow> Q c"
  shows "\<exists>ws. words_of (\<lambda>c. Q c \<and> \<not> isspace R c) ws \<and> clean_spaces R (re_sub_runs P SP base) = join SP ws"
proof -
  let ?t = "re_sub_runs P SP base"
  obtain ws where w: "words_of (\<lambda>c. \<not> isspace R c \<and> c \<in> set ?t) ws"
    and e: "clean_spaces R ?t = join SP ws"
    using clean_spaces_words[of R ?t] by blast
  have "words_of (\<lambda>c. Q c \<and> \<not> isspace R c) ws"
  proof (rule words_of_mono[OF w])
    fix c assume c: "\<not> isspace R c \<and> c \<in> set ?t"
    then have "c \<in> {c \<in> set base. \<not> P c} \<union> set SP" using set_re_sub_runs[of P SP base] by blast
    moreover have "c \<noteq> 32" using c by auto
    ultimately show "Q c \<and> \<not> isspace R c" using c assms by (auto simp: SP_def)
  qed
  then show ?thesis using e by blast
qed

lemma norm_community_key:
  "\<exists>ws. words_of key_char ws \<and> norm_community R x = join SP ws"
proof -
  obtain ws where "words_of (\<lambda>c. key_char c \<and> \<not> isspace R c) ws"
    and e: "norm_community R x = join SP ws"
    unfolding norm_community_def Let_def
    using norm_key_words[of non_alnum key_char R] by (auto simp: non_alnum_def key_char_def)
  then have "words_of key_char ws" by (auto simp: words_of_def)
  then show ?thesis using e by blast
qed

lemma norm_community_on_key:
  assumes "words_of key_char ws"
  shows "norm_community R (join SP ws) = join SP ws"
proof -
  have ns: "words_of (\<lambda>c. \<not> isspace R c) ws"
    using assms by (rule words_of_mono) (rule key_char_not_space)
  have 1: "clean_spaces R (join SP ws) = join SP ws" by (rule clean_spaces_join[OF ns])
  have 2: "strip_accents R (join SP ws) = join SP ws"
    by (rule strip_accents_ascii[OF key_join_ascii[OF assms]])
  have 3: "lower R (join SP ws) = join SP ws" by (rule key_join_lower[OF assms])
  have 4: "re_sub_runs non_alnum SP (join SP ws) = join SP ws"
    using assms by (rule re_sub_join) (auto simp: key_char_def non_alnum_def)
  show ?thesis by (simp add: norm_community_def 1 2 3 4)
qed

section \<open>Community keys\<close>

text \<open>
  Claim C9. Community-key normalization is idempotent: normalizing a key that
  \<open>norm_community\<close> returned gives the same key, for every string \<open>x\<close> and whatever
  the Unicode tables say beyond ASCII.
\<close>

theorem norm_community_idempotent:
  "norm_community R (norm_community R x) = norm_community R x"
proof -
  obtain ws where "words_of key_char ws" "norm_community R x = join SP ws"
    using norm_community_key by blast
  then show ?thesis by (simp add: norm_community_on_key)
qed

section \<open>Words of a normalized string\<close>

lemma split_on_not_Nil [simp]: "split_on sep s \<noteq> []"
  by (induction s) (auto split: list.splits)

lemma title_word_plain_eq:
  "\<not> list_ex (\<lambda>c. 65 \<le> c \<and> c \<le> 90) w \<Longrightarrow> title_word R i w = title_word_plain R i w"
  by (simp add: title_word_def title_word_plain_def)

lemma enumerate_snd_in: "p \<in> set (enumerate n xs) \<Longrightarrow> snd p \<in> set xs"
  by (cases p) (auto simp: enumerate_eq_zip dest: set_zip_rightD)

lemma split_on_word:
  "sep \<notin> set w \<Longrightarrow>
   split_on sep (w @ rest) = (w @ hd (split_on sep rest)) # tl (split_on sep rest)"
  by (induction w) (auto split: list.splits)

lemma split_on_join:
  assumes "words_of (\<lambda>c. c \<noteq> 32) ws"
  shows "filter (\<lambda>w. w \<noteq> []) (split_on 32 (join SP ws)) = ws"
  using assms
proof (induction ws rule: induct_list012)
  case 1
  then show ?case by simp
next
  case (2 x)
  then have "32 \<notin> set x" by auto
  from split_on_word[OF this, of "[]"] 2 show ?case by simp
next
  case (3 x y ys)
  then have "32 \<notin> set x" by auto
  from split_on_word[OF this, of "32 # join SP (y # ys)"] 3 show ?case
    by (simp add: SP_def)
qed

lemma title_case_smart_plain:
  assumes "\<forall>c\<in>set s. \<not> (65 \<le> c \<and> c \<le> 90)"
  shows "title_case_smart R s = title_case_plain R s"
proof -
  let ?words = "filter (\<lambda>w. w \<noteq> []) (split_on 32 (clean_spaces R s))"
  obtain ws where w: "words_of (\<lambda>c. \<not> isspace R c \<and> c \<in> set s) ws"
    and e: "clean_spaces R s = join SP ws"
    using clean_spaces_words by blast
  have "words_of (\<lambda>c. c \<noteq> 32) ws"
    using w by (rule words_of_mono) auto
  then have "?words = ws" by (simp add: e split_on_join)
  then have "\<forall>w\<in>set ?words. \<forall>c\<in>set w. c \<in> set s"
    using w by (auto simp: words_of_def)
  then have "\<forall>w\<in>set ?words. \<not> list_ex (\<lambda>c. 65 \<le> c \<and> c \<le> 90) w"
    using assms by (auto simp: list_ex_iff)
  then have eq: "map (\<lambda>(i, w). title_word R i w) (enumerate 0 ?words)
           = map (\<lambda>(i, w). title_word_plain R i w) (enumerate 0 ?words)"
    by (intro map_cong refl) (auto simp: title_word_plain_eq dest: enumerate_snd_in)
  show ?thesis by (simp only: title_case_smart_def title_case_plain_def Let_def eq)
qed

section \<open>Address keys and type keys\<close>

lemma lower_fixed:
  assumes "\<forall>c\<in>set s. c < 128 \<and> \<not> (65 \<le> c \<and> c \<le> 90)"
  shows "lower R s = s"
proof -
  have "map ascii_lower s = s" using assms by (intro map_idI) (auto simp: ascii_lower_def)
  then show ?thesis using assms by (simp add: lower_def is_ascii_def list_all_iff)
qed

lemma abbrev_values:
  assumes "map_of abbrev t = Some v"
  shows "v \<noteq> [] \<and> (\<forall>c\<in>set v. key_char c)"
proof -
  have "(t, v) \<in> set abbrev" using assms by (rule map_of_SomeD)
  then show ?thesis by (auto simp: abbrev_def ustr_def key_char_def)
qed

lemma norm_address_key:
  "\<exists>ws. words_of key_char ws \<and> norm_address R a = join SP ws"
proof -
  let ?base = "lower R (strip_accents R (clean_spaces R a))"
  obtain ws where w0: "words_of (\<lambda>c. key_char c \<and> \<not> isspace R c) ws"
    and e: "clean_spaces R (re_sub_runs non_alnum SP ?base) = join SP ws"
    using norm_key_words[of non_alnum key_char R ?base] by (auto simp: non_alnum_def key_char_def)
  have w: "words_of key_char ws" using w0 by (auto simp: words_of_def)
  have n32: "words_of (\<lambda>c. c \<noteq> 32) ws"
    using w by (rule words_of_mono) (auto simp: key_char_def)
  have toks: "filter (\<lambda>t. t \<noteq> []) (split_on 32 (join SP ws)) = ws"
    by (rule split_on_join[OF n32])
  have "words_of key_char (expand_abbrev_tokens R ws)"
  proof -
    have "x \<noteq> [] \<and> (\<forall>c\<in>set x. key_char c)"
      if "t \<in> set ws" and "x = (case map_of abbrev (lower R t) of Some v \<Rightarrow> v | None \<Rightarrow> lower R t)"
      for t x
    proof -
      have kt: "t \<noteq> [] \<and> (\<forall>c\<in>set t. key_char c)" using w that(1) by (auto simp: words_of_def)
      then have "lower R t = t" by (intro lower_fixed) (auto simp: key_char_def)
      then show ?thesis using that(2) kt abbrev_values by (auto split: option.splits)
    qed
    then show ?thesis by (auto simp: words_of_def expand_abbrev_tokens_def)
  qed
  then show ?thesis
    unfolding norm_address_def Let_def e toks by blast
qed

lemma type_key_words:
  "\<exists>ws. words_of (\<lambda>c. 97 \<le> c \<and> c \<le> 122) ws \<and> type_key R t = join SP ws"
proof -
  obtain ws where "words_of (\<lambda>c. (97 \<le> c \<and> c \<le> 122) \<and> \<not> isspace R c) ws"
    and e: "type_key R t = join SP ws"
    unfolding type_key_def Let_def
    using norm_key_words[of non_letter "\<lambda>c. 97 \<le> c \<and> c \<le> 122" R] by (auto simp: non_letter_def)
  then have "words_of (\<lambda>c. 97 \<le> c \<and> c \<le> 122) ws" by (auto simp: words_of_def)
  then show ?thesis using e by blast
qed

lemma type_key_key:
  "\<exists>ws. words_of key_char ws \<and> type_key R t = join SP ws"
  using type_key_words[of R t] by (auto simp: words_of_def key_char_def)

lemma key_no_upper:
  assumes "words_of key_char ws"
  shows "\<forall>c\<in>set (join SP ws). \<not> (65 \<le> c \<and> c \<le> 90)"
proof
  fix c assume "c \<in> set (join SP ws)"
  from key_join_chars[OF assms this] show "\<not> (65 \<le> c \<and> c \<le> 90)"
    by (auto simp: key_char_def)
qed

lemma plain_no_acronym:
  assumes "\<forall>c\<in>set s. \<not> (65 \<le> c \<and> c \<le> 90)"
  shows "\<not> acronym_fires R s"
proof -
  obtain ws where w: "words_of (\<lambda>c. \<not> isspace R c \<and> c \<in> set s) ws"
    and e: "clean_spaces R s = join SP ws"
    using clean_spaces_words by blast
  have "words_of (\<lambda>c. c \<noteq> 32) ws"
    using w by (rule words_of_mono) auto
  then have "filter (\<lambda>w. w \<noteq> []) (split_on 32 (clean_spaces R s)) = ws"
    by (simp add: e split_on_join)
  moreover have "\<forall>w\<in>set ws. \<not> list_ex (\<lambda>c. 65 \<le> c \<and> c \<le> 90) w"
    using w assms by (auto simp: words_of_def list_ex_iff)
  ultimately show ?thesis by (auto simp: acronym_fires_def list_ex_iff)
qed

section \<open>Title-casing a key can be undone\<close>

lemma map_join: "f 32 = 32 \<Longrightarrow> map f (join SP xs) = join SP (map (map f) xs)"
  by (induction xs rule: induct_list012) (auto simp: SP_def)

lemma map_enumerate_id:
  "(\<And>i w. w \<in> set ws \<Longrightarrow> g i w = w) \<Longrightarrow> map (\<lambda>(i, w). g i w) (enumerate n ws) = ws"
  by (induction ws arbitrary: n) auto

lemma title_word_key:
  assumes "w \<noteq> []" "\<forall>c\<in>set w. key_char c"
  shows "map ascii_lower (title_word R i w) = w"
proof -
  have lw: "lower R w = w" using assms by (intro lower_fixed) (auto simp: key_char_def)
  have nu: "\<not> list_ex (\<lambda>c. 65 \<le> c \<and> c \<le> 90) w"
    using assms by (auto simp: list_ex_iff key_char_def)
  have ml: "map ascii_lower w = w"
    using assms by (intro map_idI) (auto simp: key_char_def ascii_lower_def)
  obtain c cs where w: "w = c # cs" using assms(1) by (cases w) auto
  have kc: "key_char c" using assms(2) w by simp
  have up: "upper R [c] = [ascii_upper c]"
    using kc by (auto simp: upper_def is_ascii_def key_char_def)
  have lu: "ascii_lower (ascii_upper c) = c"
    using kc by (auto simp: key_char_def ascii_lower_def ascii_upper_def)
  have "map ascii_lower (upper R (take 1 w) @ drop 1 w) = w"
    using ml by (simp add: up lu w)
  then show ?thesis using ml by (simp add: title_word_def lw nu Let_def)
qed

lemma title_case_smart_key:
  assumes "words_of key_char ws"
  shows "map ascii_lower (title_case_smart R (join SP ws)) = join SP ws"
proof -
  have ns: "words_of (\<lambda>c. \<not> isspace R c) ws"
    using assms by (rule words_of_mono) (rule key_char_not_space)
  have n32: "words_of (\<lambda>c. c \<noteq> 32) ws"
    using assms by (rule words_of_mono) (auto simp: key_char_def)
  have words: "filter (\<lambda>w. w \<noteq> []) (split_on 32 (clean_spaces R (join SP ws))) = ws"
    by (simp add: clean_spaces_join[OF ns] split_on_join[OF n32])
  have "map (map ascii_lower) (map (\<lambda>(i, w). title_word R i w) (enumerate 0 ws))
        = map (\<lambda>(i, w). map ascii_lower (title_word R i w)) (enumerate 0 ws)"
    by (simp add: case_prod_beta)
  also have "\<dots> = ws"
    using assms by (intro map_enumerate_id title_word_key) (auto simp: words_of_def)
  finally show ?thesis
    by (simp add: title_case_smart_def words map_join ascii_lower_def)
qed

lemma title_inj_norm_community:
  "title_case_smart R (norm_community R a) = title_case_smart R (norm_community R b)
   \<longleftrightarrow> norm_community R a = norm_community R b"
proof
  assume eq: "title_case_smart R (norm_community R a) = title_case_smart R (norm_community R b)"
  obtain wa where a: "words_of key_char wa" "norm_community R a = join SP wa"
    using norm_community_key by blast
  obtain wb where b: "words_of key_char wb" "norm_community R b = join SP wb"
    using norm_community_key by blast
  have "map ascii_lower (title_case_smart R (join SP wa)) = map ascii_lower (title_case_smart R (join SP wb))"
    using eq a b by simp
  then show "norm_community R a = norm_community R b"
    using a b by (simp add: title_case_smart_key)
qed simp

section \<open>Dicts in insertion order and the community buckets\<close>

lemma dict_set_keys:
  "map fst (dict_set d k v) = (if k \<in> fst ` set d then map fst d else map fst d @ [k])"
  by (induction d) (auto split: if_splits)

lemma dict_set_new: "k \<notin> fst ` set d \<Longrightarrow> dict_set d k v = d @ [(k, v)]"
  by (induction d) auto

lemma map_of_dict_set: "map_of (dict_set d k v) = (map_of d)(k \<mapsto> v)"
  by (induction d) (auto simp: fun_eq_iff)

lemma dict_get_dict_set:
  "dict_get (dict_set d k v) key dflt = (if key = k then v else dict_get d key dflt)"
  by (simp add: dict_get_def map_of_dict_set)

lemma distinct_dict_set: "distinct (map fst d) \<Longrightarrow> distinct (map fst (dict_set d k v))"
  by (simp add: dict_set_keys)

lemma set_fst_dict_set: "fst ` set (dict_set d k v) = insert k (fst ` set d)"
proof -
  have "set (map fst (dict_set d k v)) = insert k (set (map fst d))"
    by (simp only: dict_set_keys) auto
  then show ?thesis by simp
qed

lemma bucket_step_cases:
  "bucket_step R b item =
     (case snd item of
        JList es \<Rightarrow> dict_set b (norm_community R (fst item))
                     (dict_get b (norm_community R (fst item)) [] @ dict_entries es)
      | _ \<Rightarrow> b)"
  by (simp add: bucket_step_def Let_def)

lemma buckets_distinct:
  "distinct (map fst b) \<Longrightarrow> distinct (map fst (foldl (bucket_step R) b items))"
proof (induction items arbitrary: b)
  case Nil
  then show ?case by simp
next
  case (Cons x xs)
  have "distinct (map fst (bucket_step R b x))"
    using Cons.prems by (auto simp: bucket_step_cases distinct_dict_set split: json.splits)
  then show ?case using Cons.IH by simp
qed

lemma buckets_keys:
  "fst ` set (foldl (bucket_step R) b items)
     = fst ` set b \<union> (\<lambda>item. norm_community R (fst item)) ` {item \<in> set items. is_list (snd item)}"
proof (induction items arbitrary: b)
  case Nil
  then show ?case by simp
next
  case (Cons x xs)
  have "fst ` set (bucket_step R b x)
          = fst ` set b \<union> (if is_list (snd x) then {norm_community R (fst x)} else {})"
    by (auto simp: bucket_step_cases set_fst_dict_set is_list_def split: json.splits)
  then show ?case using Cons.IH[of "bucket_step R b x"] by auto
qed

lemma buckets_get:
  "dict_get (foldl (bucket_step R) b items) key []
     = dict_get b key [] @ merged_entries R items key"
proof (induction items arbitrary: b)
  case Nil
  then show ?case by (simp add: merged_entries_def)
next
  case (Cons x xs)
  have "dict_get (bucket_step R b x) key []
          = dict_get b key [] @ merged_entries R [x] key"
    by (auto simp: bucket_step_cases dict_get_dict_set merged_entries_def split: json.splits)
  moreover have "merged_entries R (x # xs) key = merged_entries R [x] key @ merged_entries R xs key"
    by (simp add: merged_entries_def)
  ultimately show ?case using Cons.IH[of "bucket_step R b x"] by simp
qed

section \<open>The output communities\<close>

lemma out_fold:
  assumes "distinct (map f (map fst bs))" "f ` fst ` set bs \<inter> fst ` set out0 = {}"
  shows "foldl (\<lambda>out (k, es). dict_set out (f k) (g es)) out0 bs
           = out0 @ map (\<lambda>(k, es). (f k, g es)) bs"
  using assms
proof (induction bs arbitrary: out0)
  case Nil
  then show ?case by simp
next
  case (Cons b bs)
  obtain k es where b: "b = (k, es)" by (cases b)
  have new: "f k \<notin> fst ` set out0" using Cons.prems(2) b by auto
  have step: "dict_set out0 (f k) (g es) = out0 @ [(f k, g es)]"
    by (rule dict_set_new[OF new])
  have d: "distinct (map f (map fst bs))" using Cons.prems(1) by simp
  have "f ` fst ` set bs \<inter> fst ` set (out0 @ [(f k, g es)]) = {}"
    using Cons.prems b by auto
  from Cons.IH[OF d this] show ?case by (simp add: b step)
qed

lemma map_of_map_keys:
  assumes "inj_on f (insert k (fst ` set xs))"
  shows "map_of (map (\<lambda>(k, v). (f k, g v)) xs) (f k) = map_option g (map_of xs k)"
  using assms
proof (induction xs)
  case Nil
  then show ?case by simp
next
  case (Cons x xs)
  obtain a v where x: "x = (a, v)" by (cases x)
  have inj: "inj_on f (insert k (fst ` set xs))"
    using Cons.prems by (rule inj_on_subset) auto
  have "f a = f k \<longleftrightarrow> a = k"
    using Cons.prems x by (auto simp: inj_on_def)
  then show ?case using Cons.IH[OF inj] x by auto
qed

lemma title_inj_on_buckets:
  "inj_on (title_case_smart R)
     (insert (norm_community R n) (fst ` set (foldl (bucket_step R) [] items)))"
proof -
  have "insert (norm_community R n) (fst ` set (foldl (bucket_step R) [] items))
          \<subseteq> range (norm_community R)"
    by (auto simp: buckets_keys)
  moreover have "inj_on (title_case_smart R) (range (norm_community R))"
    by (auto simp: inj_on_def title_inj_norm_community)
  ultimately show ?thesis by (rule inj_on_subset[rotated])
qed

lemma buckets_titles_distinct:
  "distinct (map (title_case_smart R) (map fst (foldl (bucket_step R) [] items)))"
proof -
  let ?ks = "map fst (foldl (bucket_step R) [] items)"
  have d: "distinct ?ks" by (rule buckets_distinct) simp
  have "set ?ks \<subseteq> insert (norm_community R []) (fst ` set (foldl (bucket_step R) [] items))"
    by auto
  then have i: "inj_on (title_case_smart R) (set ?ks)"
    by (rule inj_on_subset[OF title_inj_on_buckets])
  have "distinct ys \<Longrightarrow> inj_on f (set ys) \<Longrightarrow> distinct (map f ys)" for f :: "pystr \<Rightarrow> pystr" and ys
    by (simp add: distinct_map)
  from this[OF d i] show ?thesis .
qed

lemma clean_groups_JObj:
  "clean_groups R (JObj items)
     = Inr (map (\<lambda>(k, es). (title_case_smart R k, clean_bucket R es))
              (foldl (bucket_step R) [] items))"
proof -
  let ?bs = "foldl (bucket_step R) [] items"
  have d: "distinct (map (title_case_smart R) (map fst ?bs))"
    by (rule buckets_titles_distinct)
  have fold: "foldl (\<lambda>out (k, es). dict_set out (title_case_smart R k) (clean_bucket R es)) [] ?bs
           = map (\<lambda>(k, es). (title_case_smart R k, clean_bucket R es)) ?bs"
    using out_fold[OF d, of "[]" "clean_bucket R"] by simp
  show ?thesis
  proof (cases items)
    case Nil
    then show ?thesis by (simp add: clean_groups_def)
  next
    case (Cons a as)
    then show ?thesis using fold by (simp add: clean_groups_def)
  qed
qed

lemma buckets_lookup:
  assumes "item \<in> set items" "is_list (snd item)"
  shows "map_of (foldl (bucket_step R) [] items) (norm_community R (fst item))
           = Some (merged_entries R items (norm_community R (fst item)))"
proof -
  let ?bs = "foldl (bucket_step R) [] items"
  let ?k = "norm_community R (fst item)"
  have "?k \<in> fst ` set ?bs" using assms by (auto simp: buckets_keys)
  then obtain v where v: "map_of ?bs ?k = Some v"
    by (metis domIff dom_map_of_conv_image_fst not_Some_eq)
  then have "dict_get ?bs ?k [] = v" by (simp add: dict_get_def)
  then have "v = merged_entries R items ?k"
    using buckets_get[of R "[]" items ?k] by (simp add: dict_get_def)
  then show ?thesis using v by simp
qed

lemma out_lookup:
  assumes "item \<in> set items" "is_list (snd item)"
  shows "map_of (map (\<lambda>(k, es). (title_case_smart R k, clean_bucket R es))
                   (foldl (bucket_step R) [] items))
           (title_case_smart R (norm_community R (fst item)))
         = Some (clean_bucket R (merged_entries R items (norm_community R (fst item))))"
  by (simp add: map_of_map_keys[OF title_inj_on_buckets] buckets_lookup[OF assms])

lemma out_distinct:
  "distinct (map fst (map (\<lambda>(k, es). (title_case_smart R k, clean_bucket R es))
                   (foldl (bucket_step R) [] items)))"
proof -
  let ?bs = "foldl (bucket_step R) [] items"
  have "map fst (map (\<lambda>(k, es). (title_case_smart R k, clean_bucket R es)) ?bs)
                 = map (title_case_smart R) (map fst ?bs)"
    by (simp add: case_prod_beta)
  then show ?thesis by (simp only: buckets_titles_distinct)
qed

text \<open>
  Claim C7. Raw community names that normalize to the same key are merged into a single
  output community. For every mapping \<open>items\<close> of raw community names the call succeeds,
  no display name occurs twice in the output, the output communities are the title-cased
  keys of the raw communities whose value is a list, and under the display name of each
  such community stands the cleaning of \<open>merged_entries\<close>: the dict-shaped entries of all
  raw communities with that key, those of a later spelling after those of an earlier one.
\<close>

theorem community_merge:
  "\<exists>out. clean_groups R (JObj items) = Inr out
     \<and> distinct (map fst out)
     \<and> fst ` set out = (\<lambda>item. title_case_smart R (norm_community R (fst item)))
                          ` {item \<in> set items. is_list (snd item)}
     \<and> (\<forall>item\<in>set items. is_list (snd item) \<longrightarrow>
           map_of out (title_case_smart R (norm_community R (fst item)))
             = Some (clean_bucket R (merged_entries R items (norm_community R (fst item)))))"
proof -
  let ?out = "map (\<lambda>(k, es). (title_case_smart R k, clean_bucket R es))
                (foldl (bucket_step R) [] items)"
  have "fst ` set ?out = title_case_smart R ` fst ` set (foldl (bucket_step R) [] items)"
    by (force simp: image_iff)
  then have "fst ` set ?out = (\<lambda>item. title_case_smart R (norm_community R (fst item)))
                          ` {item \<in> set items. is_list (snd item)}"
    by (simp add: buckets_keys image_image)
  then show ?thesis
    using clean_groups_JObj[of R items] out_distinct[of R items] out_lookup[of _ items R]
    by blast
qed

text \<open>
  Claim C10. A community whose value is a list without any dict-shaped entry (the empty
  list included), and whose key no other raw community shares, is not omitted: the output
  maps its title-cased key to the empty list of entries.
\<close>

theorem empty_community_kept:
  assumes "(name, JList es) \<in> set items"
    and "\<forall>e\<in>set es. \<forall>kvs. e \<noteq> JObj kvs"
    and "\<forall>item\<in>set items. norm_community R (fst item) = norm_community R name
            \<longrightarrow> item = (name, JList es)"
  shows "\<exists>out. clean_groups R (JObj items) = Inr out
           \<and> map_of out (title_case_smart R (norm_community R name)) = Some []"
proof -
  have de: "dict_entries es = []"
    using assms(2) by (induction es rule: dict_entries.induct) auto
  have "\<forall>item\<in>set items.
          (case snd item of
             JList es' \<Rightarrow> if norm_community R (fst item) = norm_community R name
                          then dict_entries es' else []
           | _ \<Rightarrow> []) = []"
    using assms(3) de by (auto split: json.splits)
  then have "merged_entries R items (norm_community R name) = []"
    by (simp add: merged_entries_def)
  moreover have "clean_bucket R [] = []" by (simp add: clean_bucket_def)
  ultimately show ?thesis
    using clean_groups_JObj[of R items] out_lookup[OF assms(1), of R]
    by (simp add: is_list_def)
qed

section \<open>The end-to-end scenario, step by step\<close>

lemma ustr_eq [simp]: "ustr a = ustr b \<longleftrightarrow> a = b"
  by (simp add: ustr_def inj_map_eq_map[OF inj_of_char])

lemma ustr_eq_Nil [simp]: "ustr a = [] \<longleftrightarrow> a = []" "[] = ustr a \<longleftrightarrow> a = []"
  by (auto simp: ustr_def)


lemmas py_eval =
  ustr_def SP_def is_ascii_def isspace_def decimal_def isdigit_def ascii_lower_def
  ascii_upper_def lower_def upper_def nfkd_def combining_def strip_def strip_accents_def
  clean_spaces_def non_alnum_def non_letter_def small_def abbrev_def title_word_def
  title_case_smart_def norm_community_def expand_abbrev_tokens_def norm_address_def
  extract_gate_tokens_def uniq_preserve_def Counter_def most_common_def type_key_def
  norm_type_def enumerate_eq_zip Let_def

lemma oak_clean_spaces: "clean_spaces R (ustr ''100 N Main St'') = ustr ''100 N Main St''"
  "clean_spaces R (ustr ''100 North Main Street'') = ustr ''100 North Main Street''"
  "clean_spaces R (ustr ''1234'') = ustr ''1234''"
  "clean_spaces R (ustr ''1234,5678'') = ustr ''1234,5678''"
  by (simp_all add: py_eval)

lemma oak_norm_address: "norm_address R (ustr ''100 N Main St'') = ustr ''100 north main street''"
  "norm_address R (ustr ''100 North Main Street'') = ustr ''100 north main street''"
  by (simp_all add: py_eval)

lemma oak_norm_type: "norm_type R (ustr ''apt'') = ustr ''Apartments''"
  "norm_type R (ustr ''Apartment'') = ustr ''Apartments''"
  by (simp_all add: py_eval)

lemma oak_community: "norm_community R (ustr ''Oak Hills'') = ustr ''oak hills''"
  "title_case_smart R (ustr ''oak hills'') = ustr ''Oak Hills''"
  by (simp_all add: py_eval)

lemma oak_most_common: "most_common [ustr ''100 N Main St'', ustr ''100 North Main Street''] = ustr ''100 N Main St''"
  "most_common [ustr ''Apartments'', ustr ''Apartments''] = ustr ''Apartments''"
  by (simp_all add: py_eval)

lemma oak_gate_tokens: "extract_gate_tokens R (ustr ''1234'') = [ustr ''1234'']"
  "extract_gate_tokens R (ustr ''1234,5678'') = [ustr ''1234'', ustr ''5678'']"
  "uniq_preserve [ustr ''1234'', ustr ''1234'', ustr ''5678''] = [ustr ''1234'', ustr ''5678'']"
  by (simp_all add: py_eval)

lemma oak_by_addr_first: "by_addr_step R [] oak_e1 =
   [(ustr ''100 north main street'',
     \<lparr>addresses = [ustr ''100 N Main St''], types = [ustr ''Apartments''], gates = [ustr ''1234'']\<rparr>)]"
  by (simp add: by_addr_step_def oak_e1_def dict_get_def Let_def oak_clean_spaces oak_norm_address oak_norm_type)

lemma oak_by_addr: "foldl (by_addr_step R) [] [oak_e1, oak_e2] =
   [(ustr ''100 north main street'',
     \<lparr>addresses = [ustr ''100 N Main St'', ustr ''100 North Main Street''],
      types = [ustr ''Apartments'', ustr ''Apartments''],
      gates = [ustr ''1234'', ustr ''1234,5678'']\<rparr>)]"
  by (simp add: oak_by_addr_first) (simp add: by_addr_step_def oak_e2_def dict_get_def Let_def oak_clean_spaces oak_norm_address oak_norm_type)

lemma oak_clean_bucket: "clean_bucket R [oak_e1, oak_e2] =
   [\<lparr>out_address = ustr ''100 N Main St'', out_gate = ustr ''1234 5678'',
     out_type = ustr ''Apartments''\<rparr>]"
  by (simp only: clean_bucket_def oak_by_addr) (simp add: merge_group_def Let_def oak_most_common oak_gate_tokens, simp add: ustr_def SP_def)

lemma oak_clean_groups: "clean_groups R (JObj [(ustr ''Oak Hills'', JList [JObj oak_e1, JObj oak_e2])]) =
   Inr [(ustr ''Oak Hills'',
     [\<lparr>out_address = ustr ''100 N Main St'', out_gate = ustr ''1234 5678'',
       out_type = ustr ''Apartments''\<rparr>])]"
  by (simp add: clean_groups_def bucket_step_def dict_get_def oak_community oak_clean_bucket)

text \<open>
  Claim C1. For the document with the one community \<open>Oak Hills\<close> and the two entries
  \<open>100 N Main St\<close> / \<open>1234\<close> / \<open>apt\<close> and \<open>100 North Main Street\<close> /
  \<open>1234,5678\<close> / \<open>Apartment\<close>, the transform returns exactly one community, named
  \<open>Oak Hills\<close>, with exactly one entry: gate \<open>1234 5678\<close>, type \<open>Apartments\<close>, and as
  address the raw string \<open>100 N Main St\<close> (each raw form has one vote; the first one seen
  wins).
\<close>

theorem end_to_end_oak_hills:
  "main_payload R oak_hills_doc =
     Inr \<lparr>out_meta = JObj [],
          out_groups = [(ustr ''Oak Hills'',
             [\<lparr>out_address = ustr ''100 N Main St'', out_gate = ustr ''1234 5678'',
               out_type = ustr ''Apartments''\<rparr>])]\<rparr>"
  by (simp add: main_payload_def oak_hills_doc_def dict_get_def oak_clean_groups)

section \<open>The acronym branch of the title-caser\<close>

lemma by_addr_keys:
  "fst ` set (foldl (by_addr_step R) m entries) \<subseteq> fst ` set m \<union> range (norm_address R)"
proof (induction entries arbitrary: m)
  case Nil
  then show ?case by simp
next
  case (Cons e es)
  have "fst ` set (by_addr_step R m e) \<subseteq> fst ` set m \<union> range (norm_address R)"
    by (auto simp: by_addr_step_def Let_def set_fst_dict_set)
  then show ?case using Cons.IH[of "by_addr_step R m e"] unfolding foldl_Cons by blast
qed

lemma key_title_plain:
  assumes "words_of key_char ws"
  shows "\<not> acronym_fires R (join SP ws) \<and> title_case_smart R (join SP ws) = title_case_plain R (join SP ws)"
  using key_no_upper[OF assms] by (simp add: plain_no_acronym title_case_smart_plain)

text \<open>
  Claim C8. The pipeline calls \<open>title_case_smart\<close> on the keys of \<open>buckets\<close>
  (normalized community keys), on the keys of \<open>by_addr\<close> (normalized address keys, in
  the address fallback) and on the local \<open>k\<close> of \<open>norm_type\<close>. None of these strings
  contains an uppercase letter \<open>A\<close>..\<open>Z\<close>, the acronym branch is taken for none of
  their words, and on each of them \<open>title_case_smart\<close> returns what the same function
  without that branch, \<open>title_case_plain\<close>, returns.
\<close>

theorem acronym_branch_dead:
  "(\<forall>k\<in>fst ` set (foldl (bucket_step R) [] items).
       \<not> acronym_fires R k \<and> title_case_smart R k = title_case_plain R k)
   \<and> (\<forall>k\<in>fst ` set (foldl (by_addr_step R) [] entries).
       \<not> acronym_fires R k \<and> title_case_smart R k = title_case_plain R k)
   \<and> \<not> acronym_fires R (type_key R t)
   \<and> title_case_smart R (type_key R t) = title_case_plain R (type_key R t)
   \<and> (\<forall>c\<in>set (norm_community R x). \<not> (65 \<le> c \<and> c \<le> 90))
   \<and> (\<forall>c\<in>set (norm_address R a). \<not> (65 \<le> c \<and> c \<le> 90))
   \<and> (\<forall>c\<in>set (type_key R t). \<not> (65 \<le> c \<and> c \<le> 90))"
proof -
  have comm: "\<not> acronym_fires R (norm_community R n)
      \<and> title_case_smart R (norm_community R n) = title_case_plain R (norm_community R n)
      \<and> (\<forall>c\<in>set (norm_community R n). \<not> (65 \<le> c \<and> c \<le> 90))" for n
    using norm_community_key[of R n] key_title_plain key_no_upper by metis
  have addr: "\<not> acronym_fires R (norm_address R n)
      \<and> title_case_smart R (norm_address R n) = title_case_plain R (norm_address R n)
      \<and> (\<forall>c\<in>set (norm_address R n). \<not> (65 \<le> c \<and> c \<le> 90))" for n
    using norm_address_key[of R n] key_title_plain key_no_upper by metis
  have tk: "\<not> acronym_fires R (type_key R t)
      \<and> title_case_smart R (type_key R t) = title_case_plain R (type_key R t)
      \<and> (\<forall>c\<in>set (type_key R t). \<not> (65 \<le> c \<and> c \<le> 90))"
    using type_key_key[of R t] key_title_plain key_no_upper by metis
  have 1: "\<forall>k\<in>fst ` set (foldl (bucket_step R) [] items).
       \<not> acronym_fires R k \<and> title_case_smart R k = title_case_plain R k"
  proof
    fix k assume "k \<in> fst ` set (foldl (bucket_step R) [] items)"
    then obtain n where "k = norm_community R n" by (auto simp: buckets_keys)
    then show "\<not> acronym_fires R k \<and> title_case_smart R k = title_case_plain R k"
      using comm by simp
  qed
  have 2: "\<forall>k\<in>fst ` set (foldl (by_addr_step R) [] entries).
       \<not> acronym_fires R k \<and> title_case_smart R k = title_case_plain R k"
  proof
    fix k assume "k \<in> fst ` set (foldl (by_addr_step R) [] entries)"
    then obtain n where "k = norm_address R n" using by_addr_keys[of R "[]" entries] by auto
    then show "\<not> acronym_fires R k \<and> title_case_smart R k = title_case_plain R k"
      using addr by simp
  qed
  show ?thesis using 1 2 tk comm[of x] addr[of a] by blast
qed

section \<open>The theorems on communities at concrete documents\<close>

lemma two_spellings_keys:
  "norm_community R (ustr ''oak   hills'') = ustr ''oak hills''"
  by (simp add: py_eval)

lemma two_spellings_buckets:
  "foldl (bucket_step R) [] two_spellings = [(ustr ''oak hills'', [oak_e1, oak_e2])]"
  by (simp add: two_spellings_def bucket_step_def dict_get_def oak_community two_spellings_keys)

lemma two_spellings_merged:
  "merged_entries R two_spellings (ustr ''oak hills'') = [oak_e1, oak_e2]"
  by (simp add: two_spellings_def merged_entries_def oak_community two_spellings_keys)

lemma two_spellings_out:
  "clean_groups R (JObj two_spellings) =
     Inr [(ustr ''Oak Hills'',
       [\<lparr>out_address = ustr ''100 N Main St'', out_gate = ustr ''1234 5678'',
         out_type = ustr ''Apartments''\<rparr>])]"
  by (simp add: clean_groups_JObj two_spellings_buckets oak_community oak_clean_bucket)

text \<open>
  The two spellings \<open>Oak Hills\<close> and \<open>oak   hills\<close> share a key, and the one output
  community holds the entry of the first followed by the entry of the second.
\<close>

theorem community_merge_witness:
  "is_list (JList [JNull, JObj oak_e2])
   \<and> norm_community ascii_tables (ustr ''Oak Hills'') = norm_community ascii_tables (ustr ''oak   hills'')
   \<and> merged_entries ascii_tables two_spellings (norm_community ascii_tables (ustr ''oak   hills''))
        = [oak_e1, oak_e2]
   \<and> clean_groups ascii_tables (JObj two_spellings) =
        Inr [(ustr ''Oak Hills'', clean_bucket ascii_tables [oak_e1, oak_e2])]"
proof -
  obtain out where o: "clean_groups ascii_tables (JObj two_spellings) = Inr out"
    and l: "\<forall>item\<in>set two_spellings. is_list (snd item) \<longrightarrow>
           map_of out (title_case_smart ascii_tables (norm_community ascii_tables (fst item)))
             = Some (clean_bucket ascii_tables
                 (merged_entries ascii_tables two_spellings (norm_community ascii_tables (fst item))))"
    using community_merge[of ascii_tables two_spellings] by blast
  have out: "out = [(ustr ''Oak Hills'',
       [\<lparr>out_address = ustr ''100 N Main St'', out_gate = ustr ''1234 5678'',
         out_type = ustr ''Apartments''\<rparr>])]"
    using o by (simp add: two_spellings_out)
  have "(ustr ''oak   hills'', JList [JNull, JObj oak_e2]) \<in> set two_spellings"
    by (simp add: two_spellings_def)
  with l have "map_of out (title_case_smart ascii_tables (norm_community ascii_tables (ustr ''oak   hills'')))
             = Some (clean_bucket ascii_tables
                 (merged_entries ascii_tables two_spellings (norm_community ascii_tables (ustr ''oak   hills''))))"
    by (auto simp: is_list_def)
  then have "clean_bucket ascii_tables [oak_e1, oak_e2]
      = [\<lparr>out_address = ustr ''100 N Main St'', out_gate = ustr ''1234 5678'',
         out_type = ustr ''Apartments''\<rparr>]"
    by (simp add: out two_spellings_keys two_spellings_merged oak_community)
  then show ?thesis
    by (simp add: is_list_def two_spellings_keys two_spellings_merged oak_community two_spellings_out)
qed

lemma with_empty_keys:
  "norm_community R (ustr ''Elm Court'') = ustr ''elm court''"
  "title_case_smart R (ustr ''elm court'') = ustr ''Elm Court''"
  by (simp_all add: py_eval)

text \<open>\<open>Elm Court\<close>, whose list holds no dict, is kept with no entries.\<close>

theorem empty_community_kept_witness:
  "(ustr ''Elm Court'', JList [JInt 7]) \<in> set with_empty
   \<and> norm_community ascii_tables (ustr ''Oak Hills'') \<noteq> norm_community ascii_tables (ustr ''Elm Court'')
   \<and> (\<exists>out. clean_groups ascii_tables (JObj with_empty) = Inr out
          \<and> map_of out (ustr ''Elm Court'') = Some [])"
proof -
  have 1: "(ustr ''Elm Court'', JList [JInt 7]) \<in> set with_empty"
    by (simp add: with_empty_def)
  have 2: "\<forall>e\<in>set [JInt 7]. \<forall>kvs. e \<noteq> JObj kvs" by simp
  have 3: "\<forall>item\<in>set with_empty.
      norm_community ascii_tables (fst item) = norm_community ascii_tables (ustr ''Elm Court'')
        \<longrightarrow> item = (ustr ''Elm Court'', JList [JInt 7])"
    by (simp add: with_empty_def oak_community with_empty_keys)
  from empty_community_kept[OF 1 2 3] show ?thesis
    using 1 by (simp add: oak_community with_empty_keys)
qed

text \<open>The keys of the scenario are title-cased without the acronym branch.\<close>

theorem acronym_branch_dead_witness:
  "ustr ''oak hills'' \<in> fst ` set (foldl (bucket_step ascii_tables) [] two_spellings)
   \<and> \<not> acronym_fires ascii_tables (ustr ''oak hills'')
   \<and> title_case_smart ascii_tables (ustr ''oak hills'') = title_case_plain ascii_tables (ustr ''oak hills'')
   \<and> ustr ''100 north main street'' \<in> fst ` set (foldl (by_addr_step ascii_tables) [] [oak_e1, oak_e2])
   \<and> \<not> acronym_fires ascii_tables (ustr ''100 north main street'')
   \<and> title_case_smart ascii_tables (ustr ''100 north main street'')
        = title_case_plain ascii_tables (ustr ''100 north main street'')
   \<and> title_case_plain ascii_tables (ustr ''oak hills'') = ustr ''Oak Hills''
   \<and> 111 \<in> set (norm_community ascii_tables (ustr ''Oak Hills''))
   \<and> \<not> (65 \<le> (111::nat) \<and> (111::nat) \<le> 90)
   \<and> 110 \<in> set (norm_address ascii_tables (ustr ''100 N Main St''))
   \<and> 97 \<in> set (type_key ascii_tables (ustr ''apt''))"
proof -
  note T = acronym_branch_dead[of ascii_tables two_spellings "[oak_e1, oak_e2]" "ustr ''apt''"
      "ustr ''Oak Hills''" "ustr ''100 N Main St''"]
  have k1: "ustr ''oak hills'' \<in> fst ` set (foldl (bucket_step ascii_tables) [] two_spellings)"
    by (simp add: two_spellings_buckets)
  have k2: "ustr ''100 north main street'' \<in> fst ` set (foldl (by_addr_step ascii_tables) [] [oak_e1, oak_e2])"
    by (simp only: oak_by_addr) simp
  have a: "\<forall>k\<in>fst ` set (foldl (bucket_step ascii_tables) [] two_spellings).
       \<not> acronym_fires ascii_tables k \<and> title_case_smart ascii_tables k = title_case_plain ascii_tables k"
    and b: "\<forall>k\<in>fst ` set (foldl (by_addr_step ascii_tables) [] [oak_e1, oak_e2]).
       \<not> acronym_fires ascii_tables k \<and> title_case_smart ascii_tables k = title_case_plain ascii_tables k"
    and cc: "\<forall>c\<in>set (norm_community ascii_tables (ustr ''Oak Hills'')). \<not> (65 \<le> c \<and> c \<le> 90)"
    using T by blast+
  have c: "\<not> acronym_fires ascii_tables (ustr ''oak hills'')
      \<and> title_case_smart ascii_tables (ustr ''oak hills'') = title_case_plain ascii_tables (ustr ''oak hills'')"
    using a k1 by blast
  have d: "\<not> acronym_fires ascii_tables (ustr ''100 north main street'')
      \<and> title_case_smart ascii_tables (ustr ''100 north main street'')
          = title_case_plain ascii_tables (ustr ''100 north main street'')"
    using b k2 by blast
  have e: "title_case_plain ascii_tables (ustr ''oak hills'') = ustr ''Oak Hills''"
    using c oak_community(2)[of ascii_tables] by simp
  have m1: "111 \<in> set (norm_community ascii_tables (ustr ''Oak Hills''))"
    by (simp add: oak_community) (simp add: ustr_def)
  have m2: "110 \<in> set (norm_address ascii_tables (ustr ''100 N Main St''))"
    by (simp add: oak_norm_address) (simp add: ustr_def)
  have "type_key ascii_tables (ustr ''apt'') = ustr ''apt''" by (simp add: py_eval)
  then have m3: "97 \<in> set (type_key ascii_tables (ustr ''apt''))"
    by (simp add: ustr_def)
  have f: "\<not> (65 \<le> (111::nat) \<and> (111::nat) \<le> 90)" using cc m1 by blast
  have c1: "\<not> acronym_fires ascii_tables (ustr ''oak hills'')"
    and c2: "title_case_smart ascii_tables (ustr ''oak hills'') = title_case_plain ascii_tables (ustr ''oak hills'')"
    using c by simp_all
  have d1: "\<not> acronym_fires ascii_tables (ustr ''100 north main street'')"
    and d2: "title_case_smart ascii_tables (ustr ''100 north main street'')
          = title_case_plain ascii_tables (ustr ''100 north main street'')"
    using d by simp_all
  show ?thesis
    by (intro conjI) (fact k1 k2 c1 c2 d1 d2 e m1 m2 m3 f)+
qed

section \<open>First occurrences, digit runs and majority votes\<close>

lemma uniq_loop_out: "uniq_loop seen out xs = out @ uniq_loop seen [] xs"
proof (induction xs arbitrary: seen out)
  case Nil
  then show ?case by simp
next
  case (Cons x xs)
  show ?case
  proof (cases "x \<in> seen")
    case True
    then show ?thesis using Cons.IH[of seen out] by simp
  next
    case False
    then show ?thesis
      using Cons.IH[of "insert x seen" "out @ [x]"] Cons.IH[of "insert x seen" "[x]"] by simp
  qed
qed

lemma uniq_loop_Cons:
  "uniq_loop seen [] (x # xs) =
     (if x \<in> seen then uniq_loop seen [] xs else x # uniq_loop (insert x seen) [] xs)"
  using uniq_loop_out[of "insert x seen" "[x]" xs] by simp

lemma uniq_loop_filter:
  "uniq_loop (A \<union> B) [] xs = uniq_loop A [] (filter (\<lambda>y. y \<notin> B) xs)"
proof (induction xs arbitrary: A)
  case Nil
  then show ?case by simp
next
  case (Cons x xs)
  have "insert x (A \<union> B) = insert x A \<union> B" by simp
  then show ?case using Cons.IH[of A] Cons.IH[of "insert x A"]
    by (auto simp: uniq_loop_Cons simp del: uniq_loop.simps(2))
qed

lemma uniq_preserve_Nil: "uniq_preserve [] = []"
  by (simp add: uniq_preserve_def)

lemma uniq_preserve_Cons:
  "uniq_preserve (x # xs) = x # uniq_preserve (filter (\<lambda>y. y \<noteq> x) xs)"
  using uniq_loop_filter[of "{}" "{x}" xs]
  by (simp add: uniq_preserve_def uniq_loop_Cons del: uniq_loop.simps(2))

lemma set_uniq_loop: "set (uniq_loop seen [] xs) = set xs - seen"
  by (induction xs arbitrary: seen) (auto simp: uniq_loop_Cons simp del: uniq_loop.simps(2))

lemma distinct_uniq_loop: "distinct (uniq_loop seen [] xs)"
  by (induction xs arbitrary: seen) (auto simp: uniq_loop_Cons set_uniq_loop simp del: uniq_loop.simps(2))

lemma set_uniq_preserve: "set (uniq_preserve xs) = set xs"
  by (simp add: uniq_preserve_def set_uniq_loop)

lemma distinct_uniq_preserve: "distinct (uniq_preserve xs)"
  by (simp add: uniq_preserve_def distinct_uniq_loop)

lemma takeWhile_uniq_loop:
  "r \<notin> seen \<Longrightarrow>
   takeWhile (\<lambda>v. v \<noteq> r) (uniq_loop seen [] xs) = uniq_loop seen [] (takeWhile (\<lambda>v. v \<noteq> r) xs)"
  by (induction xs arbitrary: seen) (auto simp: uniq_loop_Cons simp del: uniq_loop.simps(2))

lemma takeWhile_uniq_preserve:
  "set (takeWhile (\<lambda>v. v \<noteq> r) (uniq_preserve xs)) = set (takeWhile (\<lambda>v. v \<noteq> r) xs)"
  by (simp add: uniq_preserve_def takeWhile_uniq_loop set_uniq_loop)

lemma runs_skip: "\<forall>c\<in>set sep. \<not> P c \<Longrightarrow> runs P (sep @ s) = runs P s"
  by (induction sep) auto

lemma runs_all: "w \<noteq> [] \<Longrightarrow> \<forall>c\<in>set w. P c \<Longrightarrow> runs P w = [w]"
  using runs_word_append[of w P "[]"] by simp

lemma counter_add_keys:
  "map fst (counter_add c v) = (if v \<in> set (map fst c) then map fst c else map fst c @ [v])"
  by (induction c v rule: counter_add.induct) auto

lemma counter_add_get:
  "dict_get (counter_add c v) x 0 = dict_get c x 0 + (if x = v then 1 else 0)"
  by (induction c v rule: counter_add.induct) (auto simp: dict_get_def)

lemma counter_keys:
  "map fst (foldl counter_add c vs) = map fst c @ uniq_loop (set (map fst c)) [] vs"
proof (induction vs arbitrary: c)
  case Nil
  then show ?case by simp
next
  case (Cons v vs)
  show ?case
    using Cons.IH[of "counter_add c v"]
    by (auto simp: counter_add_keys uniq_loop_Cons insert_absorb simp del: uniq_loop.simps(2))
qed

lemma counter_get:
  "dict_get (foldl counter_add c vs) x 0 = dict_get c x 0 + count_list vs x"
  by (induction vs arbitrary: c) (auto simp: counter_add_get)

lemma Counter_keys: "map fst (Counter vs) = uniq_preserve vs"
  by (simp add: Counter_def uniq_preserve_def counter_keys)

lemma Counter_count:
  assumes "(k, n) \<in> set (Counter vs)"
  shows "n = count_list vs k"
proof -
  have "distinct (map fst (Counter vs))" by (simp add: Counter_keys distinct_uniq_preserve)
  then have "map_of (Counter vs) k = Some n" using assms by simp
  then have "dict_get (Counter vs) k 0 = n" by (simp add: dict_get_def)
  then show ?thesis using counter_get[of "[]" vs k] by (simp add: Counter_def dict_get_def)
qed

lemma max_first_split:
  "\<exists>pre post. best # xs = pre @ max_first best xs # post
      \<and> (\<forall>x\<in>set pre. snd x < snd (max_first best xs))
      \<and> (\<forall>x\<in>set post. snd x \<le> snd (max_first best xs))"
proof (induction xs arbitrary: best)
  case Nil
  show ?case by (intro exI[of _ "[]"]) simp
next
  case (Cons x xs)
  define b where "b = (if snd best < snd x then x else best)"
  define r where "r = max_first b xs"
  obtain pre post where sp: "b # xs = pre @ r # post"
    and lt: "\<forall>y\<in>set pre. snd y < snd r" and le: "\<forall>y\<in>set post. snd y \<le> snd r"
    using Cons.IH[of b] unfolding r_def by blast
  have r: "max_first best (x # xs) = r" by (simp add: r_def b_def)
  have ble: "snd b \<le> snd r"
  proof (cases pre)
    case Nil
    then show ?thesis using sp by simp
  next
    case (Cons p ps)
    then have "b \<in> set pre" using sp by simp
    then show ?thesis using lt by (simp add: less_imp_le)
  qed
  show ?case
  proof (cases "snd best < snd x")
    case True
    then have bx: "b = x" by (simp add: b_def)
    have "best # x # xs = (best # pre) @ r # post" using sp bx by simp
    moreover have "\<forall>y\<in>set (best # pre). snd y < snd r" using lt ble True bx by auto
    ultimately show ?thesis unfolding r using le by blast
  next
    case False
    then have bb: "b = best" by (simp add: b_def)
    show ?thesis
    proof (cases pre)
      case Nil
      then have rb: "r = best" and px: "post = xs" using sp bb by auto
      have 1: "best # x # xs = [] @ r # (x # xs)" using rb by simp
      have 2: "\<forall>y\<in>set (x # xs). snd y \<le> snd r" using le False rb px by auto
      have 3: "\<forall>y\<in>set []. snd y < snd r" by simp
      show ?thesis unfolding r using 1 2 3 by blast
    next
      case (Cons p ps)
      then have p: "p = best" and xs: "xs = ps @ r # post" using sp bb by auto
      have 1: "best # x # xs = (best # x # ps) @ r # post" using xs by simp
      have "snd best < snd r" using lt Cons p by simp
      then have 2: "\<forall>y\<in>set (best # x # ps). snd y < snd r" using lt Cons False by auto
      show ?thesis unfolding r using 1 2 le by blast
    qed
  qed
qed

lemma most_common_empty:
  "filter (\<lambda>v. v \<noteq> []) values = [] \<Longrightarrow> most_common values = []"
  by (simp add: most_common_def Counter_def)

lemma most_common_vote:
  assumes "filter (\<lambda>v. v \<noteq> []) values = vs" "vs \<noteq> []"
  shows "most_common values \<in> set vs
     \<and> (\<forall>v\<in>set vs. count_list vs v \<le> count_list vs (most_common values))
     \<and> (\<forall>v\<in>set (takeWhile (\<lambda>v. v \<noteq> most_common values) vs).
            count_list vs v < count_list vs (most_common values))"
proof -
  have keys: "map fst (Counter vs) = uniq_preserve vs" by (rule Counter_keys)
  then have "Counter vs \<noteq> []" using assms(2) set_uniq_preserve[of vs] by (cases "Counter vs") auto
  then obtain x xs where c: "Counter vs = x # xs" by (cases "Counter vs") auto
  define m where "m = max_first x xs"
  have mc: "most_common values = fst m" by (simp add: most_common_def assms(1) c m_def)
  obtain pre post where sp: "x # xs = pre @ m # post"
    and lt: "\<forall>y\<in>set pre. snd y < snd m" and le: "\<forall>y\<in>set post. snd y \<le> snd m"
    using max_first_split[of x xs] unfolding m_def by blast
  have cnt: "snd p = count_list vs (fst p)" if "p \<in> set (Counter vs)" for p
    using Counter_count[of "fst p" "snd p" vs] that by simp
  have min: "m \<in> set (Counter vs)" using sp c by simp
  have sm: "snd m = count_list vs (fst m)" by (rule cnt[OF min])
  have "fst m \<in> set (map fst (Counter vs))" using min by (simp only: set_map) (rule imageI)
  then have in_vs: "fst m \<in> set vs" by (simp add: keys set_uniq_preserve)
  have all_le: "count_list vs v \<le> count_list vs (fst m)" if "v \<in> set vs" for v
  proof -
    have "v \<in> set (map fst (Counter vs))" using that by (simp add: keys set_uniq_preserve)
    then obtain p where p: "p \<in> set (Counter vs)" "fst p = v" by auto
    then have "snd p \<le> snd m" using sp c lt le by (auto simp: less_imp_le)
    then show ?thesis using cnt[OF p(1)] p(2) sm by simp
  qed
  have ks: "uniq_preserve vs = map fst pre @ fst m # map fst post"
    using keys c sp by simp
  have np: "fst m \<notin> set (map fst pre)"
    using distinct_uniq_preserve[of vs] by (simp add: ks)
  have "takeWhile (\<lambda>v. v \<noteq> fst m) (map fst pre @ fst m # map fst post)
          = map fst pre @ takeWhile (\<lambda>v. v \<noteq> fst m) (fst m # map fst post)"
    by (rule takeWhile_append2) (use np in metis)
  then have "takeWhile (\<lambda>v. v \<noteq> fst m) (map fst pre @ fst m # map fst post) = map fst pre"
    by simp
  then have "takeWhile (\<lambda>v. v \<noteq> fst m) (uniq_preserve vs) = map fst pre"
    by (simp only: ks)
  then have tw: "set (takeWhile (\<lambda>v. v \<noteq> fst m) vs) = set (map fst pre)"
    using takeWhile_uniq_preserve[of "fst m" vs] by simp
  have before: "count_list vs v < count_list vs (fst m)"
    if "v \<in> set (takeWhile (\<lambda>v. v \<noteq> fst m) vs)" for v
  proof -
    have "v \<in> fst ` set pre" using that tw by simp
    then obtain p where p: "p \<in> set pre" "fst p = v" by (auto simp: image_iff)
    then have "p \<in> set (Counter vs)" using sp c by simp
    then show ?thesis using cnt[of p] p lt sm by auto
  qed
  show ?thesis using in_vs all_le before by (simp add: mc)
qed

section \<open>Address groups and their contributors\<close>

lemma by_addr_step_fields:
  "by_addr_step R m e =
     dict_set m (norm_address R (entry_address R e))
       \<lparr>addresses = addresses (dict_get m (norm_address R (entry_address R e))
                        \<lparr>addresses = [], types = [], gates = []\<rparr>) @ [entry_address R e],
        types = types (dict_get m (norm_address R (entry_address R e))
                        \<lparr>addresses = [], types = [], gates = []\<rparr>) @ [entry_type R e],
        gates = gates (dict_get m (norm_address R (entry_address R e))
                        \<lparr>addresses = [], types = [], gates = []\<rparr>) @ [entry_gate R e]\<rparr>"
  by (simp add: by_addr_step_def Let_def entry_address_def entry_type_def entry_gate_def)

lemma by_addr_distinct:
  "distinct (map fst m) \<Longrightarrow> distinct (map fst (foldl (by_addr_step R) m es))"
proof (induction es arbitrary: m)
  case Nil
  then show ?case by simp
next
  case (Cons e es)
  have "distinct (map fst (by_addr_step R m e))"
    using Cons.prems by (simp only: by_addr_step_fields distinct_dict_set)
  then show ?case using Cons.IH by simp
qed

lemma by_addr_get:
  "dict_get (foldl (by_addr_step R) m es) k \<lparr>addresses = [], types = [], gates = []\<rparr> =
     \<lparr>addresses = addresses (dict_get m k \<lparr>addresses = [], types = [], gates = []\<rparr>)
                    @ map (entry_address R) (contributors R es k),
      types = types (dict_get m k \<lparr>addresses = [], types = [], gates = []\<rparr>)
                    @ map (entry_type R) (contributors R es k),
      gates = gates (dict_get m k \<lparr>addresses = [], types = [], gates = []\<rparr>)
                    @ map (entry_gate R) (contributors R es k)\<rparr>"
proof (induction es arbitrary: m)
  case Nil
  then show ?case by (simp add: contributors_def)
next
  case (Cons e es)
  show ?case
    using Cons.IH[of "by_addr_step R m e"]
    by (simp add: by_addr_step_fields dict_get_dict_set contributors_def)
qed

lemma by_addr_group:
  assumes "(k, agg) \<in> set (foldl (by_addr_step R) [] entries)"
  shows "agg = \<lparr>addresses = map (entry_address R) (contributors R entries k),
               types = map (entry_type R) (contributors R entries k),
               gates = map (entry_gate R) (contributors R entries k)\<rparr>"
proof -
  have "distinct (map fst (foldl (by_addr_step R) [] entries))"
    by (rule by_addr_distinct) simp
  then have "map_of (foldl (by_addr_step R) [] entries) k = Some agg"
    using assms by simp
  then have "dict_get (foldl (by_addr_step R) [] entries) k \<lparr>addresses = [], types = [], gates = []\<rparr> = agg"
    by (simp add: dict_get_def)
  then show ?thesis using by_addr_get[of R "[]" entries k] by (simp add: dict_get_def)
qed

lemma takeWhile_append_stop:
  "b = [] \<or> \<not> P (hd b) \<Longrightarrow> takeWhile P (cs @ b) = takeWhile P cs"
  by (induction cs) (auto, cases b, auto)

lemma dropWhile_append_stop:
  "b = [] \<or> \<not> P (hd b) \<Longrightarrow> dropWhile P (cs @ b) = dropWhile P cs @ b"
  by (induction cs) (auto, cases b, auto)

lemma runs_append_stop:
  "b = [] \<or> \<not> P (hd b) \<Longrightarrow> runs P (a @ b) = runs P a @ runs P b"
proof (induction P a rule: runs.induct)
  case (1 P)
  then show ?case by simp
next
  case (2 P c cs)
  then show ?case by (simp add: takeWhile_append_stop dropWhile_append_stop)
qed

lemma clean_spaces_eq_join:
  "clean_spaces R s = join SP (runs (\<lambda>c. \<not> isspace R c) s)"
proof -
  let ?ws = "runs (\<lambda>c. \<not> isspace R c) s"
  have "words_of (\<lambda>c. \<not> isspace R c \<and> c \<in> set s) ?ws" by (rule runs_words)
  then have w': "words_of (\<lambda>c. \<not> isspace R c) ?ws" by (rule words_of_mono) simp
  have "strip R (join SP ?ws) = join SP ?ws"
  proof (cases "?ws = []")
    case True
    then show ?thesis by (simp add: strip_def)
  next
    case False
    then show ?thesis using join_hd_last[OF w' False] by (intro strip_id) auto
  qed
  then show ?thesis by (simp add: clean_spaces_def)
qed

lemma runs_join_runs:
  "\<forall>c. P c \<longrightarrow> Q c \<Longrightarrow> \<not> Q 32 \<Longrightarrow> runs P (join SP (runs Q s)) = runs P s"
proof (induction Q s rule: runs.induct)
  case (1 Q)
  then show ?case by simp
next
  case (2 Q c cs)
  have nP: "\<not> P 32" using "2.prems" by blast
  show ?case
  proof (cases "Q c")
    case True
    define w where "w = c # takeWhile Q cs"
    define rest where "rest = dropWhile Q cs"
    have s_eq: "c # cs = w @ rest" by (simp add: w_def rest_def)
    have "rest = [] \<or> \<not> Q (hd rest)"
      unfolding rest_def using hd_dropWhile[of Q cs] by blast
    then have stop: "rest = [] \<or> \<not> P (hd rest)" using "2.prems"(1) by blast
    have rP: "runs P (c # cs) = runs P w @ runs P rest"
      unfolding s_eq using stop by (rule runs_append_stop[of rest P w])
    have IH: "runs P (join SP (runs Q rest)) = runs P rest"
      unfolding rest_def using "2.IH"(1)[OF True "2.prems"] .
    have rQ: "runs Q (c # cs) = w # runs Q rest" using True by (simp add: w_def rest_def)
    show ?thesis
    proof (cases "runs Q rest")
      case Nil
      then have "runs P rest = []" using IH by simp
      then show ?thesis unfolding rP rQ Nil by simp
    next
      case (Cons y ys)
      have "runs P (w @ 32 # join SP (y # ys)) = runs P w @ runs P (32 # join SP (y # ys))"
        by (rule runs_append_stop) (simp add: nP)
      also have "runs P (32 # join SP (y # ys)) = runs P rest"
        using IH nP by (simp add: Cons)
      finally show ?thesis unfolding rP rQ Cons by (simp add: SP_def)
    qed
  next
    case False
    then have "\<not> P c" using "2.prems"(1) by blast
    then show ?thesis using False "2.IH"(2)[OF False "2.prems"] by simp
  qed
qed

lemma runs_clean_spaces:
  assumes "\<forall>c. P c \<longrightarrow> \<not> isspace R c"
  shows "runs P (clean_spaces R s) = runs P s"
  unfolding clean_spaces_eq_join using assms by (intro runs_join_runs) auto

section \<open>The representative address and type of an address group\<close>

lemma first_of_two:
  "a \<in> set xs \<Longrightarrow> b \<in> set xs \<Longrightarrow> a \<noteq> b \<Longrightarrow>
   a \<in> set (takeWhile (\<lambda>v. v \<noteq> b) xs) \<or> b \<in> set (takeWhile (\<lambda>v. v \<noteq> a) xs)"
  by (induction xs) auto

lemma majority_winner_unique:
  assumes "majority_winner vs r" "majority_winner vs r'"
  shows "r = r'"
proof (rule ccontr)
  assume ne: "r \<noteq> r'"
  have le: "count_list vs r \<le> count_list vs r'" "count_list vs r' \<le> count_list vs r"
    using assms by (auto simp: majority_winner_def)
  have "r \<in> set (takeWhile (\<lambda>v. v \<noteq> r') vs) \<or> r' \<in> set (takeWhile (\<lambda>v. v \<noteq> r) vs)"
    using assms ne by (intro first_of_two) (auto simp: majority_winner_def)
  then have "count_list vs r < count_list vs r' \<or> count_list vs r' < count_list vs r"
    using assms by (auto simp: majority_winner_def)
  then show False using le by auto
qed

lemma most_common_winner:
  "votes values \<noteq> [] \<Longrightarrow> majority_winner (votes values) (most_common values)"
  using most_common_vote[of "values" "votes values"] by (simp add: votes_def majority_winner_def)

lemma most_common_nonempty:
  assumes "votes values \<noteq> []"
  shows "most_common values \<noteq> []"
proof -
  have "most_common values \<in> set (votes values)"
    using most_common_winner[OF assms] by (simp add: majority_winner_def)
  then show ?thesis by (auto simp: votes_def)
qed

lemma merge_group_address:
  "out_address (merge_group R k agg) =
     (if votes (addresses agg) = [] then title_case_smart R k else most_common (addresses agg))"
  using most_common_nonempty[of "addresses agg"] most_common_empty[of "addresses agg"]
  by (auto simp: merge_group_def Let_def votes_def)

lemma merge_group_type:
  "out_type (merge_group R k agg) =
     (if votes (types agg) = [] then ustr ''Unknown'' else most_common (types agg))"
  using most_common_nonempty[of "types agg"] most_common_empty[of "types agg"]
  by (auto simp: merge_group_def Let_def votes_def)

lemma main_st_most_common: "most_common main_st_votes = ustr ''123 Main St''"
  by (simp add: main_st_votes_def py_eval)

section \<open>Gate tokens\<close>

lemma gate_text_tokens:
  "extract_gate_tokens R gate_text = [ustr ''0456'', ustr ''0456'', ustr ''0789'']"
  by (simp add: gate_text_def py_eval)

lemma gate_text_uniq:
  "uniq_preserve [ustr ''0456'', ustr ''0456'', ustr ''0789''] = [ustr ''0456'', ustr ''0789'']"
  by (simp add: py_eval)

lemma merge_group_gate:
  "out_gate (merge_group R k agg)
     = join SP (uniq_preserve (concat (map (extract_gate_tokens R) (gates agg))))"
  by (simp add: merge_group_def Let_def)

text \<open>
  Claim C6. \<open>extract_gate_tokens\<close> returns the maximal runs of decimal digits from left
  to right: leading non-digits are skipped, and a non-empty run of digits that ends the
  string or is followed by a non-digit is the next token. \<open>uniq_preserve\<close> keeps each
  token once, at its first position. From \<open>Gate: 0456, code 0456 / 0789\<close> the tokens are
  \<open>0456\<close>, \<open>0789\<close>. The gate of an address group is the single-space join of the
  deduplicated concatenation of the tokens of its contributors' gate strings, in
  contribution order; collapsing the whitespace of a gate string, as the loop over the
  entries does, does not change its tokens when no digit is whitespace.
\<close>

theorem gate_tokens:
  "extract_gate_tokens R [] = []
   \<and> (\<forall>sep s. (\<forall>c\<in>set sep. \<not> decimal R c) \<longrightarrow>
         extract_gate_tokens R (sep @ s) = extract_gate_tokens R s)
   \<and> (\<forall>w rest. w \<noteq> [] \<and> (\<forall>c\<in>set w. decimal R c) \<and> (rest = [] \<or> \<not> decimal R (hd rest)) \<longrightarrow>
         extract_gate_tokens R (w @ rest) = w # extract_gate_tokens R rest)
   \<and> uniq_preserve [] = []
   \<and> (\<forall>x xs. uniq_preserve (x # xs) = x # uniq_preserve (filter (\<lambda>y. y \<noteq> x) xs))
   \<and> distinct (uniq_preserve toks) \<and> set (uniq_preserve toks) = set toks
   \<and> uniq_preserve (extract_gate_tokens R gate_text) = [ustr ''0456'', ustr ''0789'']
   \<and> out_gate (merge_group R k agg)
        = join SP (uniq_preserve (concat (map (extract_gate_tokens R) (gates agg))))
   \<and> ((k, agg) \<in> set (foldl (by_addr_step R) [] entries) \<longrightarrow>
         gates agg = map (entry_gate R) (contributors R entries k))
   \<and> ((\<forall>c. decimal R c \<longrightarrow> \<not> isspace R c) \<longrightarrow>
         extract_gate_tokens R (clean_spaces R raw) = extract_gate_tokens R raw)"
proof -
  have 1: "\<forall>sep s. (\<forall>c\<in>set sep. \<not> decimal R c) \<longrightarrow>
         extract_gate_tokens R (sep @ s) = extract_gate_tokens R s"
    by (simp add: extract_gate_tokens_def runs_skip)
  have 2: "\<forall>w rest. w \<noteq> [] \<and> (\<forall>c\<in>set w. decimal R c) \<and> (rest = [] \<or> \<not> decimal R (hd rest)) \<longrightarrow>
         extract_gate_tokens R (w @ rest) = w # extract_gate_tokens R rest"
    unfolding extract_gate_tokens_def using runs_word_append[of _ "decimal R"] by blast
  have 3: "\<forall>x xs. uniq_preserve (x # xs) = x # uniq_preserve (filter (\<lambda>y. y \<noteq> x) xs)"
    by (simp add: uniq_preserve_Cons)
  have 4: "uniq_preserve (extract_gate_tokens R gate_text) = [ustr ''0456'', ustr ''0789'']"
    by (simp only: gate_text_tokens gate_text_uniq)
  have 5: "(k, agg) \<in> set (foldl (by_addr_step R) [] entries) \<longrightarrow>
         gates agg = map (entry_gate R) (contributors R entries k)"
    using by_addr_group[of k agg R entries] by auto
  have 6: "(\<forall>c. decimal R c \<longrightarrow> \<not> isspace R c) \<longrightarrow>
         extract_gate_tokens R (clean_spaces R raw) = extract_gate_tokens R raw"
    unfolding extract_gate_tokens_def using runs_clean_spaces[of "decimal R" R raw] by blast
  have 7: "extract_gate_tokens R [] = []" by (simp add: extract_gate_tokens_def)
  show ?thesis
    using 1 2 3 4 5 6 7
    by (simp only: uniq_preserve_Nil distinct_uniq_preserve set_uniq_preserve merge_group_gate)
       simp
qed

theorem gate_tokens_witness:
  "(ustr ''100 north main street'',
      \<lparr>addresses = [ustr ''100 N Main St'', ustr ''100 North Main Street''],
       types = [ustr ''Apartments'', ustr ''Apartments''],
       gates = [ustr ''1234'', ustr ''1234,5678'']\<rparr>)
     \<in> set (foldl (by_addr_step ascii_tables) [] [oak_e1, oak_e2])
   \<and> map (entry_gate ascii_tables)
        (contributors ascii_tables [oak_e1, oak_e2] (ustr ''100 north main street''))
        = [ustr ''1234'', ustr ''1234,5678'']
   \<and> extract_gate_tokens ascii_tables (ustr ''#12'') = [ustr ''12'']
   \<and> extract_gate_tokens ascii_tables (ustr ''12, 7'') = [ustr ''12'', ustr ''7'']
   \<and> \<not> decimal ascii_tables 35 \<and> decimal ascii_tables 49 \<and> \<not> decimal ascii_tables 44
   \<and> extract_gate_tokens ascii_tables (clean_spaces ascii_tables (ustr '' 12   7 ''))
        = extract_gate_tokens ascii_tables (ustr '' 12   7 '')
   \<and> clean_spaces ascii_tables (ustr '' 12   7 '') = ustr ''12 7''"
proof -
  define agg where "agg = \<lparr>addresses = [ustr ''100 N Main St'', ustr ''100 North Main Street''],
       types = [ustr ''Apartments'', ustr ''Apartments''],
       gates = [ustr ''1234'', ustr ''1234,5678'']\<rparr>"
  note T = gate_tokens[of ascii_tables "[]" "ustr ''100 north main street''" agg "[oak_e1, oak_e2]"
      "ustr '' 12   7 ''"]
  have m: "(ustr ''100 north main street'', agg) \<in> set (foldl (by_addr_step ascii_tables) [] [oak_e1, oak_e2])"
    by (simp only: oak_by_addr agg_def) simp
  have g: "gates agg = map (entry_gate ascii_tables)
        (contributors ascii_tables [oak_e1, oak_e2] (ustr ''100 north main street''))"
    using T m by blast
  have d: "\<forall>c. decimal ascii_tables c \<longrightarrow> \<not> isspace ascii_tables c"
    by (auto simp: decimal_def isspace_def ascii_tables_def)
  have cs: "extract_gate_tokens ascii_tables (clean_spaces ascii_tables (ustr '' 12   7 ''))
        = extract_gate_tokens ascii_tables (ustr '' 12   7 '')"
    using T d by blast
  have s: "\<forall>c\<in>set (ustr ''#''). \<not> decimal ascii_tables c"
    by (simp add: ustr_def decimal_def)
  have "extract_gate_tokens ascii_tables (ustr ''#'' @ ustr ''12'') = extract_gate_tokens ascii_tables (ustr ''12'')"
    using T s by blast
  moreover have "ustr ''12'' \<noteq> [] \<and> (\<forall>c\<in>set (ustr ''12''). decimal ascii_tables c)
      \<and> (ustr '', 7'' = [] \<or> \<not> decimal ascii_tables (hd (ustr '', 7'')))"
    by (simp add: ustr_def decimal_def)
  then have "extract_gate_tokens ascii_tables (ustr ''12'' @ ustr '', 7'')
      = ustr ''12'' # extract_gate_tokens ascii_tables (ustr '', 7'')"
    using T by blast
  moreover have "extract_gate_tokens ascii_tables (ustr '', 7'') = [ustr ''7'']"
    "extract_gate_tokens ascii_tables (ustr ''12'') = [ustr ''12'']"
    "clean_spaces ascii_tables (ustr '' 12   7 '') = ustr ''12 7''"
    by (simp_all add: py_eval)
  moreover have "ustr ''#'' @ ustr ''12'' = ustr ''#12''" "ustr ''12'' @ ustr '', 7'' = ustr ''12, 7''"
    by (simp_all add: ustr_def)
  ultimately show ?thesis
    using m g cs by (simp add: agg_def decimal_def)
qed

section \<open>The order of the classifier's rules\<close>

lemma student_business_key:
  "type_key R (ustr ''Student Business Center'') = ustr ''student business center''"
  by (simp add: py_eval)

lemma student_business_type:
  "norm_type R (ustr ''Student Business Center'') = ustr ''Businesses''"
  by (simp add: py_eval)

lemma student_housing_type:
  "type_key R (ustr ''Student Housing'') = ustr ''student housing''"
  "norm_type R (ustr ''Student Housing'') = ustr ''Residential''"
  by (simp_all add: py_eval)

lemma condo_type:
  "type_key R (ustr ''Gated Condo Complex'') = ustr ''gated condo complex''"
  "norm_type R (ustr ''Gated Condo Complex'') = ustr ''Gated Condo Complex''"
  by (simp_all add: py_eval)

text \<open>
  Claim C4, as stated, fails: the text \<open>Student Business Center\<close> contains both
  \<open>student\<close> and \<open>business\<close> and is classified \<open>Businesses\<close>, not \<open>Residential\<close>.
\<close>

theorem student_business_counterexample:
  "contains (ustr ''student'') (type_key ascii_tables (ustr ''Student Business Center''))
   \<and> contains (ustr ''business'') (type_key ascii_tables (ustr ''Student Business Center''))
   \<and> norm_type ascii_tables (ustr ''Student Business Center'') = ustr ''Businesses''
   \<and> norm_type ascii_tables (ustr ''Student Business Center'') \<noteq> ustr ''Residential''"
  by (simp add: student_business_key student_business_type) (simp add: ustr_def)

text \<open>
  Claim C4, amended. The classifier normalizes its input to the key \<open>k\<close>, lowercase
  letters in words separated by single spaces, returns \<open>Unknown\<close> when \<open>k\<close> is empty, and
  otherwise applies its rules in this order, the first match winning: \<open>k\<close> is \<open>apt\<close> or
  \<open>apts\<close> or contains \<open>apartment\<close>: \<open>Apartments\<close>; \<open>k\<close> is \<open>residence\<close>, \<open>home\<close>,
  \<open>homes\<close> or \<open>housing\<close> or contains \<open>residential\<close>: \<open>Residential\<close>; \<open>k\<close> contains
  \<open>business\<close> or \<open>commercial\<close>: \<open>Businesses\<close>; \<open>k\<close> contains \<open>student\<close>:
  \<open>Residential\<close>; no match: the title-cased \<open>k\<close>. The \<open>student\<close> rule comes after the
  business rule, so a key that contains \<open>student\<close> and \<open>business\<close>, and neither
  \<open>apartment\<close> nor \<open>residential\<close>, is classified \<open>Businesses\<close>.
\<close>

theorem norm_type_rules:
  "(\<exists>ws. words_of (\<lambda>c. 97 \<le> c \<and> c \<le> 122) ws \<and> type_key R t = join SP ws)
   \<and> (type_key R t = [] \<longrightarrow> norm_type R t = ustr ''Unknown'')
   \<and> (type_key R t \<noteq> []
        \<and> (type_key R t \<in> {ustr ''apt'', ustr ''apts''} \<or> contains (ustr ''apartment'') (type_key R t))
       \<longrightarrow> norm_type R t = ustr ''Apartments'')
   \<and> (type_key R t \<noteq> []
        \<and> \<not> (type_key R t \<in> {ustr ''apt'', ustr ''apts''} \<or> contains (ustr ''apartment'') (type_key R t))
        \<and> (type_key R t \<in> {ustr ''residence'', ustr ''home'', ustr ''homes'', ustr ''housing''}
            \<or> contains (ustr ''residential'') (type_key R t))
       \<longrightarrow> norm_type R t = ustr ''Residential'')
   \<and> (type_key R t \<noteq> []
        \<and> \<not> (type_key R t \<in> {ustr ''apt'', ustr ''apts''} \<or> contains (ustr ''apartment'') (type_key R t))
        \<and> \<not> (type_key R t \<in> {ustr ''residence'', ustr ''home'', ustr ''homes'', ustr ''housing''}
            \<or> contains (ustr ''residential'') (type_key R t))
        \<and> (contains (ustr ''business'') (type_key R t) \<or> contains (ustr ''commercial'') (type_key R t))
       \<longrightarrow> norm_type R t = ustr ''Businesses'')
   \<and> (type_key R t \<noteq> []
        \<and> \<not> (type_key R t \<in> {ustr ''apt'', ustr ''apts''} \<or> contains (ustr ''apartment'') (type_key R t))
        \<and> \<not> (type_key R t \<in> {ustr ''residence'', ustr ''home'', ustr ''homes'', ustr ''housing''}
            \<or> contains (ustr ''residential'') (type_key R t))
        \<and> \<not> (contains (ustr ''business'') (type_key R t) \<or> contains (ustr ''commercial'') (type_key R t))
        \<and> contains (ustr ''student'') (type_key R t)
       \<longrightarrow> norm_type R t = ustr ''Residential'')
   \<and> (type_key R t \<noteq> []
        \<and> \<not> (type_key R t \<in> {ustr ''apt'', ustr ''apts''} \<or> contains (ustr ''apartment'') (type_key R t))
        \<and> \<not> (type_key R t \<in> {ustr ''residence'', ustr ''home'', ustr ''homes'', ustr ''housing''}
            \<or> contains (ustr ''residential'') (type_key R t))
        \<and> \<not> (contains (ustr ''business'') (type_key R t) \<or> contains (ustr ''commercial'') (type_key R t))
        \<and> \<not> contains (ustr ''student'') (type_key R t)
       \<longrightarrow> norm_type R t = title_case_smart R (type_key R t))
   \<and> (contains (ustr ''student'') (type_key R t) \<and> contains (ustr ''business'') (type_key R t)
        \<and> \<not> contains (ustr ''apartment'') (type_key R t)
        \<and> \<not> contains (ustr ''residential'') (type_key R t)
       \<longrightarrow> norm_type R t = ustr ''Businesses'')"
proof -
  define k where "k = type_key R t"
  have sub: "contains (ustr ''apartment'') (ustr ''apartments'')"
    "contains (ustr ''apartment'') (ustr ''apartment'')"
    "contains (ustr ''residential'') (ustr ''residential'')"
    "contains (ustr ''business'') (ustr ''business'')"
    "contains (ustr ''business'') (ustr ''businesses'')"
    "contains (ustr ''commercial'') (ustr ''commercial'')"
    by (simp_all add: ustr_def)
  have short: "\<not> contains (ustr ''student'') (ustr ''apt'')"
    "\<not> contains (ustr ''student'') (ustr ''apts'')"
    "\<not> contains (ustr ''student'') (ustr ''residence'')"
    "\<not> contains (ustr ''student'') (ustr ''home'')"
    "\<not> contains (ustr ''student'') (ustr ''homes'')"
    "\<not> contains (ustr ''student'') (ustr ''housing'')"
    "\<not> contains (ustr ''student'') []"
    by (simp_all add: ustr_def)
  have nt: "norm_type R t =
     (if k = [] then ustr ''Unknown''
      else if k \<in> {ustr ''apt'', ustr ''apts''} \<or> contains (ustr ''apartment'') k
        then ustr ''Apartments''
      else if k \<in> {ustr ''residence'', ustr ''home'', ustr ''homes'', ustr ''housing''}
              \<or> contains (ustr ''residential'') k
        then ustr ''Residential''
      else if contains (ustr ''business'') k \<or> contains (ustr ''commercial'') k
        then ustr ''Businesses''
      else if contains (ustr ''student'') k then ustr ''Residential''
      else title_case_smart R k)"
    unfolding norm_type_def Let_def k_def[symmetric] using sub by auto
  have last: "contains (ustr ''student'') k \<and> contains (ustr ''business'') k
        \<and> \<not> contains (ustr ''apartment'') k \<and> \<not> contains (ustr ''residential'') k
       \<longrightarrow> norm_type R t = ustr ''Businesses''"
    unfolding nt using short by auto
  show ?thesis
    unfolding k_def[symmetric] using type_key_words[of R t] last
    by (simp add: nt k_def[symmetric])
qed

lemma more_type_keys:
  "type_key R (ustr ''apt'') = ustr ''apt''"
  "type_key R (ustr ''Home'') = ustr ''home''"
  "type_key R (ustr ''Commercial Plaza'') = ustr ''commercial plaza''"
  by (simp_all add: py_eval)

theorem norm_type_rules_witness:
  "words_of (\<lambda>c. 97 \<le> c \<and> c \<le> 122) [ustr ''student'', ustr ''housing'']
   \<and> type_key ascii_tables (ustr ''Student Housing'') = join SP [ustr ''student'', ustr ''housing'']
   \<and> type_key ascii_tables [] = []
   \<and> norm_type ascii_tables [] = ustr ''Unknown''
   \<and> type_key ascii_tables (ustr ''apt'') = ustr ''apt''
   \<and> norm_type ascii_tables (ustr ''apt'') = ustr ''Apartments''
   \<and> type_key ascii_tables (ustr ''Home'') = ustr ''home''
   \<and> norm_type ascii_tables (ustr ''Home'') = ustr ''Residential''
   \<and> type_key ascii_tables (ustr ''Commercial Plaza'') = ustr ''commercial plaza''
   \<and> norm_type ascii_tables (ustr ''Commercial Plaza'') = ustr ''Businesses''
   \<and> type_key ascii_tables (ustr ''Student Housing'') = ustr ''student housing''
   \<and> norm_type ascii_tables (ustr ''Student Housing'') = ustr ''Residential''
   \<and> type_key ascii_tables (ustr ''Gated Condo Complex'') = ustr ''gated condo complex''
   \<and> norm_type ascii_tables (ustr ''Gated Condo Complex'')
        = title_case_smart ascii_tables (ustr ''gated condo complex'')
   \<and> norm_type ascii_tables (ustr ''Gated Condo Complex'') = ustr ''Gated Condo Complex''
   \<and> type_key ascii_tables (ustr ''Student Business Center'') = ustr ''student business center''
   \<and> contains (ustr ''student'') (ustr ''student business center'')
   \<and> contains (ustr ''business'') (ustr ''student business center'')
   \<and> norm_type ascii_tables (ustr ''Student Business Center'') = ustr ''Businesses''"
proof -
  note r_unknown = norm_type_rules[THEN conjunct2, THEN conjunct1, THEN mp]
  note r_apart = norm_type_rules[THEN conjunct2, THEN conjunct2, THEN conjunct1, THEN mp]
  note r_resid = norm_type_rules[THEN conjunct2, THEN conjunct2, THEN conjunct2, THEN conjunct1,
      THEN mp]
  note r_busin = norm_type_rules[THEN conjunct2, THEN conjunct2, THEN conjunct2, THEN conjunct2,
      THEN conjunct1, THEN mp]
  note r_stud = norm_type_rules[THEN conjunct2, THEN conjunct2, THEN conjunct2, THEN conjunct2,
      THEN conjunct2, THEN conjunct1, THEN mp]
  note r_echo = norm_type_rules[THEN conjunct2, THEN conjunct2, THEN conjunct2, THEN conjunct2,
      THEN conjunct2, THEN conjunct2, THEN conjunct1, THEN mp]
  note r_both = norm_type_rules[THEN conjunct2, THEN conjunct2, THEN conjunct2, THEN conjunct2,
      THEN conjunct2, THEN conjunct2, THEN conjunct2, THEN mp]
  have k0: "type_key ascii_tables [] = []" by (simp add: py_eval)
  have u: "norm_type ascii_tables [] = ustr ''Unknown''"
    by (rule r_unknown) (rule k0)
  have ka: "type_key ascii_tables (ustr ''apt'') = ustr ''apt''" by (rule more_type_keys)
  have a: "norm_type ascii_tables (ustr ''apt'') = ustr ''Apartments''"
    by (rule r_apart) (simp add: ka)
  have kh: "type_key ascii_tables (ustr ''Home'') = ustr ''home''" by (rule more_type_keys)
  have h: "norm_type ascii_tables (ustr ''Home'') = ustr ''Residential''"
    by (rule r_resid) (simp add: kh; simp add: ustr_def)
  have kc: "type_key ascii_tables (ustr ''Commercial Plaza'') = ustr ''commercial plaza''"
    by (rule more_type_keys)
  have c: "norm_type ascii_tables (ustr ''Commercial Plaza'') = ustr ''Businesses''"
    by (rule r_busin) (simp add: kc; simp add: ustr_def)
  have ks: "type_key ascii_tables (ustr ''Student Housing'') = ustr ''student housing''"
    by (rule student_housing_type)
  have s: "norm_type ascii_tables (ustr ''Student Housing'') = ustr ''Residential''"
    by (rule r_stud) (simp add: ks; simp add: ustr_def)
  have kg: "type_key ascii_tables (ustr ''Gated Condo Complex'') = ustr ''gated condo complex''"
    by (rule condo_type)
  have "norm_type ascii_tables (ustr ''Gated Condo Complex'')
        = title_case_smart ascii_tables (type_key ascii_tables (ustr ''Gated Condo Complex''))"
    by (rule r_echo) (simp add: kg; simp add: ustr_def)
  then have g: "norm_type ascii_tables (ustr ''Gated Condo Complex'')
        = title_case_smart ascii_tables (ustr ''gated condo complex'')"
    by (simp only: kg)
  have g': "norm_type ascii_tables (ustr ''Gated Condo Complex'') = ustr ''Gated Condo Complex''"
    by (rule condo_type)
  have kb: "type_key ascii_tables (ustr ''Student Business Center'') = ustr ''student business center''"
    by (rule student_business_key)
  have bc1: "contains (ustr ''student'') (ustr ''student business center'')"
    and bc2: "contains (ustr ''business'') (ustr ''student business center'')"
    by (simp_all add: ustr_def)
  have b: "norm_type ascii_tables (ustr ''Student Business Center'') = ustr ''Businesses''"
    by (rule r_both) (simp add: kb; simp add: ustr_def)
  have w: "words_of (\<lambda>c. 97 \<le> c \<and> c \<le> 122) [ustr ''student'', ustr ''housing'']"
    by (simp add: ustr_def)
  have j: "type_key ascii_tables (ustr ''Student Housing'') = join SP [ustr ''student'', ustr ''housing'']"
    by (simp add: student_housing_type) (simp add: ustr_def SP_def)
  show ?thesis
    by (intro conjI) (fact w j k0 u ka a kh h kc c ks s kg g g' kb bc1 bc2 b)+
qed

section \<open>A groups value that is not a mapping\<close>

text \<open>
  Claim C2, as stated, fails: a non-empty list and a non-empty string as \<open>groups\<close> make
  the transform fail with \<open>AttributeError\<close>; they are not treated as an empty mapping.
\<close>

theorem groups_not_mapping_counterexample:
  "main_payload ascii_tables (JObj [(ustr ''groups'', JList [JInt 1])]) = Inl AttributeError
   \<and> main_payload ascii_tables (JObj [(ustr ''groups'', JStr (ustr ''abc''))]) = Inl AttributeError"
  by (simp add: main_payload_def clean_groups_def dict_get_def)

lemma falsy_cases:
  "\<not> truthy g \<longleftrightarrow>
     g \<in> {JNull, JBool False, JInt 0, JFloat 0, JFloat (2 ^ 63), JStr [], JList [], JObj []}"
  by (cases g) auto

lemma clean_groups_falsy: "\<not> truthy g \<Longrightarrow> clean_groups R g = Inr []"
  by (simp add: clean_groups_def)

lemma clean_groups_other:
  "truthy g \<Longrightarrow> \<forall>items. g \<noteq> JObj items \<Longrightarrow> clean_groups R g = Inl AttributeError"
  by (cases g) (auto simp: clean_groups_def)

text \<open>
  Claim C2, amended. For every document (a mapping) whose \<open>groups\<close> value is missing or
  false in the sense of Python (null, false, zero, the empty string, the empty list; also
  the empty mapping), the transform treats it as an empty mapping: it returns a document
  with zero communities and raises no error. Any other value that is not a mapping (a
  non-empty list or string, true, a non-zero number) makes it fail with
  \<open>AttributeError\<close>.
\<close>

theorem groups_missing_or_false:
  "(map_of kvs (ustr ''groups'') = None \<longrightarrow>
      main_payload R (JObj kvs)
        = Inr \<lparr>out_meta = dict_get kvs (ustr ''meta'') (JObj []), out_groups = []\<rparr>)
   \<and> (map_of kvs (ustr ''groups'') = Some g \<and> \<not> truthy g \<longrightarrow>
      main_payload R (JObj kvs)
        = Inr \<lparr>out_meta = dict_get kvs (ustr ''meta'') (JObj []), out_groups = []\<rparr>)
   \<and> (map_of kvs (ustr ''groups'') = Some g \<and> truthy g \<and> (\<forall>items. g \<noteq> JObj items) \<longrightarrow>
      main_payload R (JObj kvs) = Inl AttributeError)
   \<and> (\<not> truthy g \<longleftrightarrow>
        g \<in> {JNull, JBool False, JInt 0, JFloat 0, JFloat (2 ^ 63), JStr [], JList [], JObj []})"
  using falsy_cases[of g]
  by (auto simp: main_payload_def dict_get_def clean_groups_falsy clean_groups_other)

theorem groups_missing_or_false_witness:
  "map_of [(ustr ''meta'', JInt 3)] (ustr ''groups'') = None
   \<and> main_payload ascii_tables (JObj [(ustr ''meta'', JInt 3)])
        = Inr \<lparr>out_meta = JInt 3, out_groups = []\<rparr>
   \<and> map_of [(ustr ''groups'', JList [])] (ustr ''groups'') = Some (JList [])
   \<and> \<not> truthy (JList [])
   \<and> main_payload ascii_tables (JObj [(ustr ''groups'', JList [])])
        = Inr \<lparr>out_meta = JObj [], out_groups = []\<rparr>
   \<and> truthy (JStr (ustr ''abc''))
   \<and> main_payload ascii_tables (JObj [(ustr ''groups'', JStr (ustr ''abc''))]) = Inl AttributeError"
proof -
  have 1: "map_of [(ustr ''meta'', JInt 3)] (ustr ''groups'') = None" by simp
  have 2: "map_of [(ustr ''groups'', JList [])] (ustr ''groups'') = Some (JList []) \<and> \<not> truthy (JList [])"
    by simp
  have 3: "map_of [(ustr ''groups'', JStr (ustr ''abc''))] (ustr ''groups'') = Some (JStr (ustr ''abc''))
      \<and> truthy (JStr (ustr ''abc'')) \<and> (\<forall>items. JStr (ustr ''abc'') \<noteq> JObj items)"
    by simp
  have a: "main_payload ascii_tables (JObj [(ustr ''meta'', JInt 3)])
        = Inr \<lparr>out_meta = dict_get [(ustr ''meta'', JInt 3)] (ustr ''meta'') (JObj []), out_groups = []\<rparr>"
    using groups_missing_or_false[where kvs = "[(ustr ''meta'', JInt 3)]" and R = ascii_tables] 1 by blast
  have b: "main_payload ascii_tables (JObj [(ustr ''groups'', JList [])])
        = Inr \<lparr>out_meta = dict_get [(ustr ''groups'', JList [])] (ustr ''meta'') (JObj []), out_groups = []\<rparr>"
    using groups_missing_or_false[where kvs = "[(ustr ''groups'', JList [])]" and g = "JList []"
        and R = ascii_tables] 2 by blast
  have c: "main_payload ascii_tables (JObj [(ustr ''groups'', JStr (ustr ''abc''))]) = Inl AttributeError"
    using groups_missing_or_false[where kvs = "[(ustr ''groups'', JStr (ustr ''abc''))]"
        and g = "JStr (ustr ''abc'')" and R = ascii_tables] 3
    by blast
  show ?thesis using 1 2 3 a b c by (simp add: dict_get_def)
qed

section \<open>Fields that are missing or not strings\<close>

lemma dec_digits_1234: "dec_digits 1234 = ustr ''1234''"
  by (simp add: dec_digits.simps[of 1234] dec_digits.simps[of 123] dec_digits.simps[of 12]
      dec_digits.simps[of "Suc 0"] ustr_def)

lemma int_gate_fields:
  "entry_address R int_gate_entry = ustr ''9 Elm St''"
  "entry_gate R int_gate_entry = ustr ''1234''"
  "entry_type R int_gate_entry = ustr ''Unknown''"
  "norm_address R (ustr ''9 Elm St'') = ustr ''9 elm street''"
  by (simp_all add: entry_address_def entry_gate_def entry_type_def int_gate_entry_def dict_get_def
      dec_digits_1234) (simp_all add: py_eval)

lemma int_gate_bucket:
  "clean_bucket R [int_gate_entry] =
     [\<lparr>out_address = ustr ''9 Elm St'', out_gate = ustr ''1234'', out_type = ustr ''Unknown''\<rparr>]"
proof -
  have "foldl (by_addr_step R) [] [int_gate_entry] =
     [(ustr ''9 elm street'',
       \<lparr>addresses = [ustr ''9 Elm St''], types = [ustr ''Unknown''], gates = [ustr ''1234'']\<rparr>)]"
    by (simp add: by_addr_step_fields int_gate_fields dict_get_def)
  moreover have "most_common [ustr ''9 Elm St''] = ustr ''9 Elm St''"
    "most_common [ustr ''Unknown''] = ustr ''Unknown''"
    "extract_gate_tokens R (ustr ''1234'') = [ustr ''1234'']"
    "uniq_preserve [ustr ''1234''] = [ustr ''1234'']"
    by (simp_all add: py_eval)
  ultimately show ?thesis
    by (simp add: clean_bucket_def merge_group_def Let_def)
qed

text \<open>
  Claim C3, as stated, fails: the integer 1234 as a gate is not treated as the empty
  string; \<open>str\<close> turns it into \<open>1234\<close>, and the entry's gate is the token \<open>1234\<close>.
\<close>

theorem int_gate_counterexample:
  "clean_groups ascii_tables (JObj [(ustr ''Oak Hills'', JList [JObj int_gate_entry])]) =
     Inr [(ustr ''Oak Hills'',
       [\<lparr>out_address = ustr ''9 Elm St'', out_gate = ustr ''1234'', out_type = ustr ''Unknown''\<rparr>])]
   \<and> map_of int_gate_entry (ustr ''gate'') = Some (JInt 1234)
   \<and> ustr ''1234'' \<noteq> []"
  by (simp add: clean_groups_def bucket_step_def dict_get_def oak_community int_gate_bucket)
     (simp add: int_gate_entry_def)

lemma dec_digits_chars: "dec_digits n \<noteq> [] \<and> (\<forall>c\<in>set (dec_digits n). 48 \<le> c \<and> c \<le> 57)"
proof (induction n rule: dec_digits.induct)
  case (1 n)
  show ?case
  proof (cases "n < 10")
    case True
    then show ?thesis by (simp add: dec_digits.simps[of n])
  next
    case False
    have "n mod 10 < 10" by simp
    then have "48 + n mod 10 \<le> 57" by linarith
    then show ?thesis using 1[OF False] False by (simp add: dec_digits.simps[of n])
  qed
qed

lemma clean_spaces_word:
  assumes "w \<noteq> []" "\<forall>c\<in>set w. \<not> isspace R c"
  shows "clean_spaces R w = w"
  using clean_spaces_join[of R "[w]"] assms by simp

lemma int_tokens:
  "extract_gate_tokens R (clean_spaces R (py_str R (JInt i))) = [dec_digits (nat \<bar>i\<bar>)]"
proof -
  define d where "d = dec_digits (nat \<bar>i\<bar>)"
  have d: "d \<noteq> []" "\<forall>c\<in>set d. 48 \<le> c \<and> c \<le> 57"
    unfolding d_def using dec_digits_chars by auto
  have dd: "\<forall>c\<in>set d. decimal R c" using d(2) by (auto simp: decimal_def)
  have ns: "\<forall>c\<in>set d. \<not> isspace R c" using d(2) by (auto simp: isspace_def)
  have rd: "runs (decimal R) d = [d]" by (rule runs_all[OF d(1) dd])
  show ?thesis
  proof (cases "i < 0")
    case True
    then have s: "py_str R (JInt i) = 45 # d" by (simp add: d_def abs_if)
    have cs: "clean_spaces R (45 # d) = 45 # d"
      using ns by (intro clean_spaces_word) (auto simp: isspace_def)
    have "\<not> decimal R 45" by (simp add: decimal_def)
    then have rr: "runs (decimal R) (45 # d) = [d]" using rd by simp
    show ?thesis unfolding d_def[symmetric] by (simp only: s cs extract_gate_tokens_def rr)
  next
    case False
    then have s: "py_str R (JInt i) = d" by (simp add: d_def abs_if)
    have cs: "clean_spaces R d = d" using d(1) ns by (rule clean_spaces_word)
    show ?thesis unfolding d_def[symmetric] by (simp only: s cs extract_gate_tokens_def rd)
  qed
qed

lemma none_fields:
  "clean_spaces R (ustr ''None'') = ustr ''None''"
  "norm_type R (ustr ''None'') = ustr ''None''"
  "clean_spaces R [] = []"
  "norm_type R [] = ustr ''Unknown''"
  "extract_gate_tokens R [] = []"
  by (simp_all add: py_eval)

text \<open>
  Claim C3, amended. For every dict entry, an \<open>address\<close>, \<open>gate\<close> or \<open>type\<close> field that
  is missing is treated as the empty string (no address to vote for, no gate tokens, type
  \<open>Unknown\<close>), and a string, also the empty one, as itself. A value \<open>v\<close> that is not a
  string is not dropped: the field is the text \<open>str(v)\<close>, so an integer gate contributes
  its decimal digits as a token, and null as address or type counts as the text \<open>None\<close>. These are the
  values the loop over the entries files under the address key, and \<open>clean_groups\<close>
  returns a result, never an error, for every mapping of communities.
\<close>

theorem entry_fields:
  "(map_of e (ustr ''address'') = None \<longrightarrow> entry_address R e = [])
   \<and> (map_of e (ustr ''gate'') = None \<longrightarrow>
        entry_gate R e = [] \<and> extract_gate_tokens R (entry_gate R e) = [])
   \<and> (map_of e (ustr ''type'') = None \<longrightarrow> entry_type R e = ustr ''Unknown'')
   \<and> (map_of e (ustr ''address'') = Some v \<longrightarrow> entry_address R e = clean_spaces R (py_str R v))
   \<and> (map_of e (ustr ''gate'') = Some v \<longrightarrow> entry_gate R e = clean_spaces R (py_str R v))
   \<and> (map_of e (ustr ''type'') = Some v \<longrightarrow> entry_type R e = norm_type R (py_str R v))
   \<and> (map_of e (ustr ''address'') = Some (JStr s) \<longrightarrow> entry_address R e = clean_spaces R s)
   \<and> (map_of e (ustr ''gate'') = Some (JStr s) \<longrightarrow> entry_gate R e = clean_spaces R s)
   \<and> (map_of e (ustr ''type'') = Some (JStr s) \<longrightarrow> entry_type R e = norm_type R s)
   \<and> (map_of e (ustr ''gate'') = Some (JInt i) \<longrightarrow>
        extract_gate_tokens R (entry_gate R e) = [dec_digits (nat \<bar>i\<bar>)])
   \<and> (map_of e (ustr ''address'') = Some JNull \<longrightarrow> entry_address R e = ustr ''None'')
   \<and> (map_of e (ustr ''type'') = Some JNull \<longrightarrow> entry_type R e = ustr ''None'')
   \<and> by_addr_step R m e =
        dict_set m (norm_address R (entry_address R e))
          \<lparr>addresses = addresses (dict_get m (norm_address R (entry_address R e))
                            \<lparr>addresses = [], types = [], gates = []\<rparr>) @ [entry_address R e],
           types = types (dict_get m (norm_address R (entry_address R e))
                            \<lparr>addresses = [], types = [], gates = []\<rparr>) @ [entry_type R e],
           gates = gates (dict_get m (norm_address R (entry_address R e))
                            \<lparr>addresses = [], types = [], gates = []\<rparr>) @ [entry_gate R e]\<rparr>
   \<and> (\<exists>out. clean_groups R (JObj items) = Inr out)"
proof -
  have g: "map_of e (ustr ''gate'') = Some (JInt i) \<longrightarrow>
        extract_gate_tokens R (entry_gate R e) = [dec_digits (nat \<bar>i\<bar>)]"
    using int_tokens[of R i] by (simp add: entry_gate_def dict_get_def)
  have r: "\<exists>out. clean_groups R (JObj items) = Inr out"
    by (simp add: clean_groups_JObj)
  show ?thesis
    using g r by_addr_step_fields[of R m e]
    by (simp add: entry_address_def entry_gate_def entry_type_def dict_get_def none_fields)
qed

lemma null_type_fields:
  "clean_spaces R (ustr ''12  34'') = ustr ''12 34''"
  "clean_spaces R (ustr ''9 Elm St'') = ustr ''9 Elm St''"
  by (simp_all add: py_eval)

theorem entry_fields_witness:
  "map_of int_gate_entry (ustr ''type'') = None
   \<and> entry_type ascii_tables int_gate_entry = ustr ''Unknown''
   \<and> map_of int_gate_entry (ustr ''address'') = Some (JStr (ustr ''9 Elm St''))
   \<and> entry_address ascii_tables int_gate_entry = ustr ''9 Elm St''
   \<and> map_of int_gate_entry (ustr ''gate'') = Some (JInt 1234)
   \<and> entry_gate ascii_tables int_gate_entry = clean_spaces ascii_tables (py_str ascii_tables (JInt 1234))
   \<and> extract_gate_tokens ascii_tables (entry_gate ascii_tables int_gate_entry) = [ustr ''1234'']
   \<and> map_of null_type_entry (ustr ''address'') = None
   \<and> entry_address ascii_tables null_type_entry = []
   \<and> map_of null_type_entry (ustr ''gate'') = Some (JStr (ustr ''12  34''))
   \<and> entry_gate ascii_tables null_type_entry = ustr ''12 34''
   \<and> map_of null_type_entry (ustr ''type'') = Some JNull
   \<and> entry_type ascii_tables null_type_entry = ustr ''None''
   \<and> entry_type ascii_tables null_type_entry = norm_type ascii_tables (py_str ascii_tables JNull)
   \<and> map_of [(ustr ''address'', JNull), (ustr ''type'', JStr (ustr ''apt''))] (ustr ''address'') = Some JNull
   \<and> entry_address ascii_tables [(ustr ''address'', JNull), (ustr ''type'', JStr (ustr ''apt''))] = ustr ''None''
   \<and> entry_address ascii_tables [(ustr ''address'', JNull), (ustr ''type'', JStr (ustr ''apt''))]
        = clean_spaces ascii_tables (py_str ascii_tables JNull)
   \<and> map_of [(ustr ''address'', JNull), (ustr ''type'', JStr (ustr ''apt''))] (ustr ''gate'') = None
   \<and> entry_gate ascii_tables [(ustr ''address'', JNull), (ustr ''type'', JStr (ustr ''apt''))] = []
   \<and> extract_gate_tokens ascii_tables
        (entry_gate ascii_tables [(ustr ''address'', JNull), (ustr ''type'', JStr (ustr ''apt''))]) = []
   \<and> map_of [(ustr ''address'', JNull), (ustr ''type'', JStr (ustr ''apt''))] (ustr ''type'')
        = Some (JStr (ustr ''apt''))
   \<and> entry_type ascii_tables [(ustr ''address'', JNull), (ustr ''type'', JStr (ustr ''apt''))]
        = ustr ''Apartments''"
proof -
  define e3 where "e3 = [(ustr ''address'', JNull), (ustr ''type'', JStr (ustr ''apt''))]"
  note T = entry_fields[where e = int_gate_entry and R = ascii_tables and s = "ustr ''9 Elm St''"
      and i = 1234 and v = "JInt 1234" and m = "[]" and items = "[]"]
  note N = entry_fields[where e = null_type_entry and R = ascii_tables and s = "ustr ''12  34''"
      and i = 0 and v = JNull and m = "[]" and items = "[]"]
  note E = entry_fields[where e = e3 and R = ascii_tables and s = "ustr ''apt''"
      and i = 0 and v = JNull and m = "[]" and items = "[]"]
  have 1: "map_of int_gate_entry (ustr ''type'') = None"
    "map_of int_gate_entry (ustr ''address'') = Some (JStr (ustr ''9 Elm St''))"
    "map_of int_gate_entry (ustr ''gate'') = Some (JInt 1234)"
    by (simp_all add: int_gate_entry_def)
  have 2: "map_of null_type_entry (ustr ''address'') = None"
    "map_of null_type_entry (ustr ''gate'') = Some (JStr (ustr ''12  34''))"
    "map_of null_type_entry (ustr ''type'') = Some JNull"
    by (simp_all add: null_type_entry_def)
  have 3: "map_of e3 (ustr ''address'') = Some JNull"
    "map_of e3 (ustr ''gate'') = None"
    "map_of e3 (ustr ''type'') = Some (JStr (ustr ''apt''))"
    by (simp_all add: e3_def)
  have t1: "entry_type ascii_tables int_gate_entry = ustr ''Unknown''" using T 1 by blast
  have t2: "entry_address ascii_tables int_gate_entry = clean_spaces ascii_tables (ustr ''9 Elm St'')"
    using T 1 by blast
  have t3: "entry_gate ascii_tables int_gate_entry = clean_spaces ascii_tables (py_str ascii_tables (JInt 1234))"
    using T 1 by blast
  have t4: "extract_gate_tokens ascii_tables (entry_gate ascii_tables int_gate_entry)
      = [dec_digits (nat \<bar>1234\<bar>)]"
    using T 1 by blast
  have n1: "entry_address ascii_tables null_type_entry = []" using N 2 by blast
  have n2: "entry_gate ascii_tables null_type_entry = clean_spaces ascii_tables (ustr ''12  34'')"
    using N 2 by blast
  have n3: "entry_type ascii_tables null_type_entry = ustr ''None''" using N 2 by blast
  have n4: "entry_type ascii_tables null_type_entry = norm_type ascii_tables (py_str ascii_tables JNull)"
    using N 2 by blast
  have e1: "entry_address ascii_tables e3 = ustr ''None''" using E 3 by blast
  have e2: "entry_address ascii_tables e3 = clean_spaces ascii_tables (py_str ascii_tables JNull)"
    using E 3 by blast
  have e4: "entry_gate ascii_tables e3 = [] \<and> extract_gate_tokens ascii_tables (entry_gate ascii_tables e3) = []"
    using E 3 by blast
  have e5: "entry_type ascii_tables e3 = norm_type ascii_tables (ustr ''apt'')" using E 3 by blast
  have c4: "entry_address ascii_tables int_gate_entry = ustr ''9 Elm St''"
    using t2 by (simp add: null_type_fields)
  have c7: "extract_gate_tokens ascii_tables (entry_gate ascii_tables int_gate_entry) = [ustr ''1234'']"
    using t4 by (simp add: dec_digits_1234)
  have c11: "entry_gate ascii_tables null_type_entry = ustr ''12 34''"
    using n2 by (simp add: null_type_fields)
  note c19 = e4[THEN conjunct1] and c20 = e4[THEN conjunct2]
  have c22: "entry_type ascii_tables e3 = ustr ''Apartments''"
    using e5 by (simp add: oak_norm_type)
  show ?thesis
    unfolding e3_def[symmetric]
    by (intro conjI) (fact 1 2 3 t1 c4 t3 c7 n1 c11 n3 n4 e1 e2 c19 c20 c22)+
qed

section \<open>The vote is over whitespace-collapsed addresses\<close>

lemma by_addr_keys_eq:
  "fst ` set (foldl (by_addr_step R) m es)
     = fst ` set m \<union> (\<lambda>e. norm_address R (entry_address R e)) ` set es"
proof (induction es arbitrary: m)
  case Nil
  then show ?case by simp
next
  case (Cons e es)
  have "fst ` set (by_addr_step R m e) = insert (norm_address R (entry_address R e)) (fst ` set m)"
    by (simp only: by_addr_step_fields set_fst_dict_set)
  then show ?case using Cons.IH[of "by_addr_step R m e"] by auto
qed

lemma group_has_contributor:
  assumes "(k, agg) \<in> set (foldl (by_addr_step R) [] entries)"
  shows "contributors R entries k \<noteq> []"
proof -
  have "k \<in> fst ` set (foldl (by_addr_step R) [] entries)"
    using assms by (rule image_eqI[rotated]) simp
  then obtain e where "e \<in> set entries" "norm_address R (entry_address R e) = k"
    by (auto simp: by_addr_keys_eq)
  then show ?thesis by (auto simp: contributors_def filter_empty_conv)
qed

lemma contributor_key:
  "e \<in> set (contributors R entries k) \<Longrightarrow> norm_address R (entry_address R e) = k"
  by (simp add: contributors_def)

lemma empty_key:
  "norm_address R [] = []" "title_case_smart R [] = []" "norm_type R [] = ustr ''Unknown''"
  by (simp_all add: py_eval)

lemma title_case_smart_nonempty:
  assumes "words_of key_char ws" "join SP ws \<noteq> []"
  shows "title_case_smart R (join SP ws) \<noteq> []"
proof
  assume "title_case_smart R (join SP ws) = []"
  then have "map ascii_lower (title_case_smart R (join SP ws)) = []" by simp
  then show False using assms by (simp add: title_case_smart_key)
qed

lemma norm_type_nonempty: "norm_type R t \<noteq> []"
proof -
  obtain ws where w: "words_of key_char ws" "type_key R t = join SP ws"
    using type_key_key by blast
  have "type_key R t \<noteq> [] \<Longrightarrow> title_case_smart R (type_key R t) \<noteq> []"
    using title_case_smart_nonempty[OF w(1)] w(2) by simp
  then show ?thesis by (auto simp: norm_type_def Let_def ustr_def)
qed

lemma votes_all: "\<forall>v\<in>set vs. v \<noteq> [] \<Longrightarrow> votes vs = vs"
  by (simp add: votes_def)

lemma votes_none: "votes vs = [] \<Longrightarrow> v \<in> set vs \<Longrightarrow> v = []"
  by (auto simp: votes_def filter_empty_conv)

lemma street_fields:
  "entry_address R street_e1 = ustr ''1 A Street''"
  "entry_address R street_e2 = ustr ''1 A St''"
  "entry_address R street_e3 = ustr ''1 A St''"
  "entry_gate R street_e1 = []" "entry_gate R street_e2 = []" "entry_gate R street_e3 = []"
  "entry_type R street_e1 = ustr ''Unknown''" "entry_type R street_e2 = ustr ''Unknown''"
  "entry_type R street_e3 = ustr ''Unknown''"
  "norm_address R (ustr ''1 A Street'') = ustr ''1 a street''"
  "norm_address R (ustr ''1 A St'') = ustr ''1 a street''"
  by (simp_all add: entry_address_def entry_gate_def entry_type_def street_e1_def street_e2_def
      street_e3_def dict_get_def) (simp_all add: py_eval)

lemma street_by_addr:
  "foldl (by_addr_step R) [] [street_e1, street_e2, street_e3] =
     [(ustr ''1 a street'',
       \<lparr>addresses = [ustr ''1 A Street'', ustr ''1 A St'', ustr ''1 A St''],
        types = [ustr ''Unknown'', ustr ''Unknown'', ustr ''Unknown''],
        gates = [[], [], []]\<rparr>)]"
  by (simp add: by_addr_step_fields street_fields dict_get_def)

lemma street_votes:
  "most_common [ustr ''1 A Street'', ustr ''1 A St'', ustr ''1 A St''] = ustr ''1 A St''"
  "most_common [ustr ''Unknown'', ustr ''Unknown'', ustr ''Unknown''] = ustr ''Unknown''"
  "most_common [ustr ''1 A St''] = ustr ''1 A St''"
  "most_common [ustr ''Unknown''] = ustr ''Unknown''"
  by (simp_all add: py_eval)

lemma street_bucket:
  "clean_bucket R [street_e1, street_e2, street_e3] =
     [\<lparr>out_address = ustr ''1 A St'', out_gate = [], out_type = ustr ''Unknown''\<rparr>]"
  by (simp only: clean_bucket_def street_by_addr)
     (simp add: merge_group_def Let_def street_votes extract_gate_tokens_def uniq_preserve_def)

lemma padded_bucket:
  "clean_bucket R [[(ustr ''address'', JStr (ustr '' 1 A St ''))]] =
     [\<lparr>out_address = ustr ''1 A St'', out_gate = [], out_type = ustr ''Unknown''\<rparr>]"
proof -
  have f: "entry_address R [(ustr ''address'', JStr (ustr '' 1 A St ''))] = ustr ''1 A St''"
    "entry_gate R [(ustr ''address'', JStr (ustr '' 1 A St ''))] = []"
    "entry_type R [(ustr ''address'', JStr (ustr '' 1 A St ''))] = ustr ''Unknown''"
    by (simp_all add: entry_address_def entry_gate_def entry_type_def dict_get_def)
       (simp_all add: py_eval)
  have "foldl (by_addr_step R) [] [[(ustr ''address'', JStr (ustr '' 1 A St ''))]] =
     [(ustr ''1 a street'',
       \<lparr>addresses = [ustr ''1 A St''], types = [ustr ''Unknown''], gates = [[]]\<rparr>)]"
    by (simp add: by_addr_step_fields f street_fields dict_get_def)
  then show ?thesis
    by (simp only: clean_bucket_def)
       (simp add: merge_group_def Let_def street_votes extract_gate_tokens_def uniq_preserve_def)
qed

text \<open>
  Claim C5, as stated, fails: the vote is not over the exact raw address strings. For the
  raw addresses \<open>1 A Street\<close>, \<open>1 A St\<close> and \<open>1  A St\<close> (two spaces), each of which occurs
  once so that the first, \<open>1 A Street\<close>, would win, the output is \<open>1 A St\<close>; and the one raw
  address \<open>1 A St\<close> with a space on either side gives \<open>1 A St\<close>, which no contributor
  holds.
\<close>

theorem raw_address_vote_counterexample:
  "map (\<lambda>e. dict_get e (ustr ''address'') (JStr [])) [street_e1, street_e2, street_e3]
      = [JStr (ustr ''1 A Street''), JStr (ustr ''1 A St''), JStr (ustr ''1  A St'')]
   \<and> majority_winner [ustr ''1 A Street'', ustr ''1 A St'', ustr ''1  A St''] (ustr ''1 A Street'')
   \<and> clean_groups ascii_tables
        (JObj [(ustr ''Oak Hills'', JList [JObj street_e1, JObj street_e2, JObj street_e3])])
      = Inr [(ustr ''Oak Hills'',
          [\<lparr>out_address = ustr ''1 A St'', out_gate = [], out_type = ustr ''Unknown''\<rparr>])]
   \<and> ustr ''1 A St'' \<noteq> ustr ''1 A Street''
   \<and> clean_groups ascii_tables
        (JObj [(ustr ''Oak Hills'', JList [JObj [(ustr ''address'', JStr (ustr '' 1 A St ''))]])])
      = Inr [(ustr ''Oak Hills'',
          [\<lparr>out_address = ustr ''1 A St'', out_gate = [], out_type = ustr ''Unknown''\<rparr>])]
   \<and> ustr ''1 A St'' \<noteq> ustr '' 1 A St ''"
proof -
  have 1: "map (\<lambda>e. dict_get e (ustr ''address'') (JStr [])) [street_e1, street_e2, street_e3]
      = [JStr (ustr ''1 A Street''), JStr (ustr ''1 A St''), JStr (ustr ''1  A St'')]"
    by (simp add: street_e1_def street_e2_def street_e3_def dict_get_def)
  have 2: "majority_winner [ustr ''1 A Street'', ustr ''1 A St'', ustr ''1  A St''] (ustr ''1 A Street'')"
    by (simp add: majority_winner_def)
  have 3: "clean_groups ascii_tables
        (JObj [(ustr ''Oak Hills'', JList [JObj street_e1, JObj street_e2, JObj street_e3])])
      = Inr [(ustr ''Oak Hills'',
          [\<lparr>out_address = ustr ''1 A St'', out_gate = [], out_type = ustr ''Unknown''\<rparr>])]"
    by (simp add: clean_groups_def bucket_step_def dict_get_def oak_community street_bucket)
  have 4: "ustr ''1 A St'' \<noteq> ustr ''1 A Street''" by simp
  have 5: "clean_groups ascii_tables
        (JObj [(ustr ''Oak Hills'', JList [JObj [(ustr ''address'', JStr (ustr '' 1 A St ''))]])])
      = Inr [(ustr ''Oak Hills'',
          [\<lparr>out_address = ustr ''1 A St'', out_gate = [], out_type = ustr ''Unknown''\<rparr>])]"
    by (simp add: clean_groups_def bucket_step_def dict_get_def oak_community padded_bucket)
  have 6: "ustr ''1 A St'' \<noteq> ustr '' 1 A St ''" by simp
  show ?thesis by (intro conjI) (fact 1 2 3 4 5 6)+
qed

lemma group_votes:
  assumes "(k, agg) \<in> set (foldl (by_addr_step R) [] entries)"
  shows "contributors R entries k \<noteq> []"
    and "addresses agg = map (entry_address R) (contributors R entries k)"
    and "types agg = map (entry_type R) (contributors R entries k)"
    and "votes (types agg) = types agg"
    and "types agg \<noteq> []"
    and "votes (addresses agg) = [] \<Longrightarrow> k = []"
proof -
  show c: "contributors R entries k \<noteq> []" by (rule group_has_contributor[OF assms])
  show a: "addresses agg = map (entry_address R) (contributors R entries k)"
    and t: "types agg = map (entry_type R) (contributors R entries k)"
    using by_addr_group[OF assms] by simp_all
  show "votes (types agg) = types agg"
    by (rule votes_all) (auto simp: t entry_type_def norm_type_nonempty)
  show "types agg \<noteq> []" using c t by simp
  show "k = []" if v: "votes (addresses agg) = []"
  proof -
    obtain e where e: "e \<in> set (contributors R entries k)" using c by (cases "contributors R entries k") auto
    then have "entry_address R e \<in> set (addresses agg)" by (simp add: a)
    then have "entry_address R e = []" by (rule votes_none[OF v])
    then show ?thesis using contributor_key[OF e] by (simp add: empty_key)
  qed
qed

lemma winner_of_constant:
  assumes "majority_winner vs r" "\<forall>v\<in>set vs. v = c"
  shows "r = c"
  using assms by (auto simp: majority_winner_def)

text \<open>
  Claim C5, amended. The strings that vote are not the raw address fields but their
  whitespace-collapsed texts, \<open>clean_spaces(str(field))\<close>. In every address group the
  engine builds, the lists of addresses and types are those of its contributors in
  contribution order; the output address is the winner of the vote among the non-empty
  whitespace-collapsed addresses: most frequent, and among equally frequent ones the one
  seen first. When no address is non-empty the output is the title-cased address key,
  which is then the empty string. The output type is the winner of the vote among the
  classified types, none of which is empty; it is \<open>Unknown\<close> when the type of every
  contributor is missing or empty, and \<open>Unknown\<close> is also what the merge step puts in
  for a vote without any non-empty value. For \<open>123 Main St\<close>, \<open>123 Main St\<close>,
  \<open>123 Main Street\<close> the address is \<open>123 Main St\<close>.
\<close>

theorem majority_vote:
  "entry_address R e = clean_spaces R (py_str R (dict_get e (ustr ''address'') (JStr [])))
   \<and> out_address (merge_group R k agg)
        = (if votes (addresses agg) = [] then title_case_smart R k else most_common (addresses agg))
   \<and> out_type (merge_group R k agg)
        = (if votes (types agg) = [] then ustr ''Unknown'' else most_common (types agg))
   \<and> (votes vs \<noteq> [] \<longrightarrow> majority_winner (votes vs) (most_common vs))
   \<and> ((k, agg) \<in> set (foldl (by_addr_step R) [] entries) \<longrightarrow>
         contributors R entries k \<noteq> []
       \<and> addresses agg = map (entry_address R) (contributors R entries k)
       \<and> types agg = map (entry_type R) (contributors R entries k)
       \<and> (votes (addresses agg) \<noteq> [] \<longrightarrow>
            majority_winner (votes (addresses agg)) (out_address (merge_group R k agg)))
       \<and> (votes (addresses agg) = [] \<longrightarrow>
            k = [] \<and> out_address (merge_group R k agg) = title_case_smart R k
            \<and> title_case_smart R k = [])
       \<and> votes (types agg) = types agg
       \<and> majority_winner (types agg) (out_type (merge_group R k agg))
       \<and> ((\<forall>c\<in>set (contributors R entries k). dict_get c (ustr ''type'') (JStr []) = JStr [])
            \<longrightarrow> out_type (merge_group R k agg) = ustr ''Unknown''))
   \<and> out_address (merge_group R k \<lparr>addresses = main_st_votes, types = ts, gates = gs\<rparr>)
        = ustr ''123 Main St''"
proof -
  have grp: "contributors R entries k \<noteq> []
       \<and> addresses agg = map (entry_address R) (contributors R entries k)
       \<and> types agg = map (entry_type R) (contributors R entries k)
       \<and> (votes (addresses agg) \<noteq> [] \<longrightarrow>
            majority_winner (votes (addresses agg)) (out_address (merge_group R k agg)))
       \<and> (votes (addresses agg) = [] \<longrightarrow>
            k = [] \<and> out_address (merge_group R k agg) = title_case_smart R k
            \<and> title_case_smart R k = [])
       \<and> votes (types agg) = types agg
       \<and> majority_winner (types agg) (out_type (merge_group R k agg))
       \<and> ((\<forall>c\<in>set (contributors R entries k). dict_get c (ustr ''type'') (JStr []) = JStr [])
            \<longrightarrow> out_type (merge_group R k agg) = ustr ''Unknown'')"
    if mem: "(k, agg) \<in> set (foldl (by_addr_step R) [] entries)"
  proof -
    note g = group_votes[OF mem]
    have vt: "votes (types agg) \<noteq> []" using g(4,5) by simp
    have wt: "majority_winner (types agg) (out_type (merge_group R k agg))"
      using most_common_winner[OF vt] vt by (simp add: merge_group_type g(4))
    have wa: "votes (addresses agg) \<noteq> [] \<longrightarrow>
            majority_winner (votes (addresses agg)) (out_address (merge_group R k agg))"
      by (simp add: merge_group_address most_common_winner)
    have fa: "votes (addresses agg) = [] \<longrightarrow>
            k = [] \<and> out_address (merge_group R k agg) = title_case_smart R k
            \<and> title_case_smart R k = []"
      using g(6) by (auto simp: merge_group_address empty_key)
    have un: "out_type (merge_group R k agg) = ustr ''Unknown''"
      if "\<forall>c\<in>set (contributors R entries k). dict_get c (ustr ''type'') (JStr []) = JStr []"
    proof -
      have "\<forall>v\<in>set (types agg). v = ustr ''Unknown''"
        using that by (auto simp: g(3) entry_type_def empty_key)
      then show ?thesis by (rule winner_of_constant[OF wt])
    qed
    show ?thesis using g(1,2,3,4) wa fa wt un by blast
  qed
  have ex: "out_address (merge_group R k \<lparr>addresses = main_st_votes, types = ts, gates = gs\<rparr>)
        = ustr ''123 Main St''"
    by (simp add: merge_group_address main_st_most_common) (simp add: votes_def main_st_votes_def)
  have w: "votes vs \<noteq> [] \<longrightarrow> majority_winner (votes vs) (most_common vs)"
    by (simp add: most_common_winner)
  show ?thesis
    using grp ex w merge_group_address[of R k agg] merge_group_type[of R k agg]
    by (simp only: entry_address_def) blast
qed

lemma bare_fields:
  "entry_address R bare_entry = []"
  "entry_gate R bare_entry = ustr ''77''"
  "entry_type R bare_entry = ustr ''Unknown''"
  "dict_get bare_entry (ustr ''type'') (JStr []) = JStr []"
  by (simp_all add: entry_address_def entry_gate_def entry_type_def bare_entry_def dict_get_def)
     (simp_all add: py_eval)

lemma bare_by_addr:
  "foldl (by_addr_step R) [] [bare_entry] =
     [([], \<lparr>addresses = [[]], types = [ustr ''Unknown''], gates = [ustr ''77'']\<rparr>)]"
  by (simp add: by_addr_step_fields bare_fields empty_key dict_get_def)

theorem majority_vote_witness:
  "(ustr ''1 a street'',
      \<lparr>addresses = [ustr ''1 A Street'', ustr ''1 A St'', ustr ''1 A St''],
       types = [ustr ''Unknown'', ustr ''Unknown'', ustr ''Unknown''],
       gates = [[], [], []]\<rparr>)
     \<in> set (foldl (by_addr_step ascii_tables) [] [street_e1, street_e2, street_e3])
   \<and> contributors ascii_tables [street_e1, street_e2, street_e3] (ustr ''1 a street'')
        = [street_e1, street_e2, street_e3]
   \<and> votes [ustr ''1 A Street'', ustr ''1 A St'', ustr ''1 A St'']
        = [ustr ''1 A Street'', ustr ''1 A St'', ustr ''1 A St'']
   \<and> majority_winner [ustr ''1 A Street'', ustr ''1 A St'', ustr ''1 A St''] (ustr ''1 A St'')
   \<and> majority_winner [ustr ''Unknown'', ustr ''Unknown'', ustr ''Unknown''] (ustr ''Unknown'')
   \<and> ([], \<lparr>addresses = [[]], types = [ustr ''Unknown''], gates = [ustr ''77'']\<rparr>)
        \<in> set (foldl (by_addr_step ascii_tables) [] [bare_entry])
   \<and> contributors ascii_tables [bare_entry] [] = [bare_entry]
   \<and> dict_get bare_entry (ustr ''type'') (JStr []) = JStr []
   \<and> votes [[]] = []
   \<and> out_address (merge_group ascii_tables []
        \<lparr>addresses = [[]], types = [ustr ''Unknown''], gates = [ustr ''77'']\<rparr>) = []
   \<and> out_type (merge_group ascii_tables []
        \<lparr>addresses = [[]], types = [ustr ''Unknown''], gates = [ustr ''77'']\<rparr>) = ustr ''Unknown''"
proof -
  define agg where "agg = \<lparr>addresses = [ustr ''1 A Street'', ustr ''1 A St'', ustr ''1 A St''],
       types = [ustr ''Unknown'', ustr ''Unknown'', ustr ''Unknown''],
       gates = [[], [], ([] :: pystr)]\<rparr>"
  define agg0 where "agg0 = \<lparr>addresses = [[]], types = [ustr ''Unknown''], gates = [ustr ''77'']\<rparr>"
  define es where "es = [street_e1, street_e2, street_e3]"
  note G = majority_vote[where R = ascii_tables and k = "ustr ''1 a street''" and agg = agg
      and entries = es, THEN conjunct2, THEN conjunct2, THEN conjunct2, THEN conjunct2,
      THEN conjunct1, THEN mp]
  note B = majority_vote[where R = ascii_tables and k = "[]" and agg = agg0
      and entries = "[bare_entry]", THEN conjunct2, THEN conjunct2, THEN conjunct2, THEN conjunct2,
      THEN conjunct1, THEN mp]
  have m: "(ustr ''1 a street'', agg) \<in> set (foldl (by_addr_step ascii_tables) [] es)"
    unfolding es_def by (simp only: street_by_addr agg_def) simp
  have m0: "([], agg0) \<in> set (foldl (by_addr_step ascii_tables) [] [bare_entry])"
    by (simp only: bare_by_addr agg0_def) simp
  have c: "contributors ascii_tables es (ustr ''1 a street'') = es"
    by (simp add: contributors_def es_def street_fields)
  have c0: "contributors ascii_tables [bare_entry] [] = [bare_entry]"
    by (simp add: contributors_def bare_fields empty_key)
  have v: "votes (addresses agg) = [ustr ''1 A Street'', ustr ''1 A St'', ustr ''1 A St'']"
    by (simp add: votes_def agg_def)
  have v0: "votes (addresses agg0) = []" by (simp add: votes_def agg0_def)
  have ta: "types agg = [ustr ''Unknown'', ustr ''Unknown'', ustr ''Unknown'']"
    by (simp add: agg_def)
  have oa: "out_address (merge_group ascii_tables (ustr ''1 a street'') agg) = ustr ''1 A St''"
    by (simp add: merge_group_address agg_def votes_def street_votes)
  have w1: "majority_winner (votes (addresses agg))
      (out_address (merge_group ascii_tables (ustr ''1 a street'') agg))"
    using G[OF m] v by simp
  have w2: "majority_winner (types agg) (out_type (merge_group ascii_tables (ustr ''1 a street'') agg))"
    using G[OF m] by blast
  have ot: "out_type (merge_group ascii_tables (ustr ''1 a street'') agg) = ustr ''Unknown''"
    by (simp add: merge_group_type agg_def votes_def street_votes)
  have ty: "\<forall>c\<in>set (contributors ascii_tables [bare_entry] []).
      dict_get c (ustr ''type'') (JStr []) = JStr []"
    by (simp add: c0 bare_fields)
  have f1: "out_address (merge_group ascii_tables [] agg0) = title_case_smart ascii_tables []
      \<and> title_case_smart ascii_tables [] = []"
    using B[OF m0] v0 by blast
  have f2: "out_type (merge_group ascii_tables [] agg0) = ustr ''Unknown''"
    using B[OF m0] ty by blast
  have r1: "(ustr ''1 a street'', agg) \<in> set (foldl (by_addr_step ascii_tables) [] [street_e1, street_e2, street_e3])"
    using m by (simp only: es_def)
  have r2: "contributors ascii_tables [street_e1, street_e2, street_e3] (ustr ''1 a street'')
        = [street_e1, street_e2, street_e3]"
    using c by (simp only: es_def)
  have r3: "votes [ustr ''1 A Street'', ustr ''1 A St'', ustr ''1 A St'']
        = [ustr ''1 A Street'', ustr ''1 A St'', ustr ''1 A St'']"
    by (simp add: votes_def)
  have r4: "majority_winner [ustr ''1 A Street'', ustr ''1 A St'', ustr ''1 A St''] (ustr ''1 A St'')"
    using w1 by (simp only: v oa)
  have r5: "majority_winner [ustr ''Unknown'', ustr ''Unknown'', ustr ''Unknown''] (ustr ''Unknown'')"
    using w2 by (simp only: ta ot)
  have r8: "dict_get bare_entry (ustr ''type'') (JStr []) = JStr []" by (rule bare_fields)
  have r9: "votes [[]] = []" by (simp add: votes_def)
  have r10: "out_address (merge_group ascii_tables [] agg0) = []" using f1 by simp
  show ?thesis
    unfolding agg_def[symmetric] agg0_def[symmetric]
    by (intro conjI) (fact r1 r2 r3 r4 r5 m0 c0 r8 r9 r10 f2)+
qed

end
